theory Spec2Isabelle
  imports Main "HOL-Library.Word"
begin

section \<open>JavaScript values\<close>

text \<open>
  The data carried by links, slot defaults, request bodies and backend replies are
  JSON-like JavaScript values. A number is an integer from \<open>-2\<^sup>5\<^sup>3\<close> to \<open>2\<^sup>5\<^sup>3 - 1\<close>, read
  from a 54-bit word as a signed value: JavaScript holds each of them exactly and prints it
  in plain decimal. Other numbers are not values of the model.
\<close>

type_synonym jsnum = "54 word"

datatype jsval =
    JUndefined
  | JNull
  | JBool bool
  | JNum jsnum
  | JStr string
  | JArr "jsval list"
  | JObj "(string \<times> jsval) list"

definition digitChar :: "nat \<Rightarrow> char" where
  "digitChar d =
     (if d = 0 then CHR ''0'' else if d = 1 then CHR ''1'' else if d = 2 then CHR ''2''
      else if d = 3 then CHR ''3'' else if d = 4 then CHR ''4'' else if d = 5 then CHR ''5''
      else if d = 6 then CHR ''6'' else if d = 7 then CHR ''7'' else if d = 8 then CHR ''8''
      else CHR ''9'')"

fun digitsOf :: "nat \<Rightarrow> string" where
  "digitsOf n = (if n < 10 then [digitChar n] else digitsOf (n div 10) @ [digitChar (n mod 10)])"

fun joinComma :: "string list \<Rightarrow> string" where
  "joinComma [] = []"
| "joinComma [s] = s"
| "joinComma (s # t # ss) = s @ '','' @ joinComma (t # ss)"

text \<open>
  \<open>String(v)\<close>, which is also the property key \<open>v\<close> is coerced to in \<open>obj[v]\<close>.
  \<open>Array.prototype.join\<close> prints \<open>null\<close> and \<open>undefined\<close> elements as the empty string.
\<close>

fun jsString :: "jsval \<Rightarrow> string" where
  "jsString JUndefined = ''undefined''"
| "jsString JNull = ''null''"
| "jsString (JBool b) = (if b then ''true'' else ''false'')"
| "jsString (JNum n) =
     (if sint n < 0 then CHR ''-'' # digitsOf (nat (- sint n)) else digitsOf (nat (sint n)))"
| "jsString (JStr s) = s"
| "jsString (JArr xs) =
     joinComma (map (\<lambda>x. if x = JNull \<or> x = JUndefined then [] else jsString x) xs)"
| "jsString (JObj kvs) = ''[object Object]''"

text \<open>What a \<open>throw\<close> or a rejected promise carries: an Error object (by name) or any value.\<close>

datatype thrown = JsError string | Thrown jsval

text \<open>Property read \<open>v.k\<close>: a TypeError on \<open>null\<close> and \<open>undefined\<close>, \<open>undefined\<close> when absent.\<close>

fun getProp :: "jsval \<Rightarrow> string \<Rightarrow> thrown + jsval" where
  "getProp JUndefined k = Inl (JsError ''TypeError'')"
| "getProp JNull k = Inl (JsError ''TypeError'')"
| "getProp (JObj kvs) k = (case map_of kvs k of None \<Rightarrow> Inr JUndefined | Some v \<Rightarrow> Inr v)"
| "getProp v k = Inr JUndefined"

subsection \<open>Plain objects as dictionaries\<close>

text \<open>
  A plain object used as a dictionary (\<open>output\<close>, \<open>inputs\<close>) is the map of its own
  properties, and a write \<open>obj[k] = v\<close> is an update of the map (what a write does with
  the key \<open>__proto__\<close> is not modelled). A read \<open>obj[k]\<close> and a test \<open>k in obj\<close> look
  further, into the members every plain object inherits from \<open>Object.prototype\<close>; all of
  these are truthy. The object \<open>seen\<close> is keyed by link ids, which are numbers, and no
  inherited member has such a name.
\<close>

definition objectPrototypeNames :: "string list" where
  "objectPrototypeNames =
     [''constructor'', ''hasOwnProperty'', ''isPrototypeOf'', ''propertyIsEnumerable'',
      ''toLocaleString'', ''toString'', ''valueOf'', ''__proto__'', ''__defineGetter__'',
      ''__defineSetter__'', ''__lookupGetter__'', ''__lookupSetter__'']"

definition inherited :: "string \<Rightarrow> bool" where
  "inherited k = (k \<in> set objectPrototypeNames)"

section \<open>Event client: websocket frames\<close>

type_synonym byte = "8 word"

datatype api_event =
    Status jsval
  | Reconnecting
  | Reconnected
  | B_preview string "byte list"

text \<open>\<open>DataView.getUint32(off)\<close>: big-endian, RangeError when the four bytes are not there.\<close>

definition getUint32 :: "byte list \<Rightarrow> nat \<Rightarrow> thrown + nat" where
  "getUint32 bs off =
     (if off + 4 \<le> length bs
      then Inr (((unat (bs ! off) * 256 + unat (bs ! (off + 1))) * 256
                  + unat (bs ! (off + 2))) * 256 + unat (bs ! (off + 3)))
      else Inl (JsError ''RangeError''))"

text \<open>
  The \<open>ArrayBuffer\<close> branch of the message handler, inside the \<open>try\<close>: the events
  emitted, or what was thrown. Both \<open>DataView\<close>s are built on \<open>event.data\<close> and both
  read offset 0, as the source does.
\<close>

definition decodeBinary :: "byte list \<Rightarrow> thrown + api_event list" where
  "decodeBinary data =
     (case getUint32 data 0 of
        Inl e \<Rightarrow> Inl e
      | Inr eventType \<Rightarrow>
          (let buffer = drop 4 data in
           if eventType = 1 then
             (case getUint32 data 0 of
                Inl e \<Rightarrow> Inl e
              | Inr imageType \<Rightarrow>
                  (let imageMime = (if imageType = 2 then ''image/png'' else ''image/jpeg'')
                   in Inr [B_preview imageMime (drop 4 buffer)]))
           else Inl (JsError ''Unknown binary websocket message'')))"

text \<open>The handler's \<open>catch\<close> logs the error and emits nothing.\<close>

definition onBinaryMessage :: "byte list \<Rightarrow> api_event list" where
  "onBinaryMessage data = (case decodeBinary data of Inl e \<Rightarrow> [] | Inr evs \<Rightarrow> evs)"

section \<open>Event client: socket lifecycle\<close>

text \<open>
  Every \<open>createSocket\<close> call that builds a socket closes over its parameter
  \<open>isReconnect\<close> and its local \<open>opened\<close>. A socket handle is the index of its closure.
  \<open>timers\<close> are the pending \<open>setTimeout\<close> callbacks (all of them the reconnect callback)
  with their delays, \<open>pollers\<close> counts the \<open>setInterval\<close>s started by \<open>pollQueue\<close>,
  \<open>closeCalls\<close> the sockets \<open>close()\<close> was called on.
\<close>

record socket_closure =
  isReconnect :: bool
  opened :: bool

record api_state =
  socket :: "nat option"
  sockets :: "socket_closure list"
  timers :: "nat list"
  pollers :: nat
  closeCalls :: "nat list"
  emitted :: "api_event list"

definition initial_state :: api_state where
  "initial_state =
     \<lparr>socket = None, sockets = [], timers = [], pollers = 0, closeCalls = [], emitted = []\<rparr>"

definition emit :: "api_event \<Rightarrow> api_state \<Rightarrow> api_state" where
  "emit e st = st\<lparr>emitted := emitted st @ [e]\<rparr>"

definition createSocket :: "bool \<Rightarrow> api_state \<Rightarrow> api_state" where
  "createSocket isRec st =
     (if socket st \<noteq> None then st
      else st\<lparr>socket := Some (length (sockets st)),
              sockets := sockets st @ [\<lparr>isReconnect = isRec, opened = False\<rparr>]\<rparr>)"

definition init :: "api_state \<Rightarrow> api_state" where
  "init st = createSocket False st"

definition onOpen :: "nat \<Rightarrow> api_state \<Rightarrow> api_state" where
  "onOpen s st =
     (if s < length (sockets st) then
        (let c = sockets st ! s;
             st1 = st\<lparr>sockets := (sockets st)[s := c\<lparr>opened := True\<rparr>]\<rparr>
         in if isReconnect c then emit Reconnected st1 else st1)
      else st)"

definition onError :: "nat \<Rightarrow> api_state \<Rightarrow> api_state" where
  "onError s st =
     (if s < length (sockets st) then
        (let c = sockets st ! s;
             st1 = (case socket st of None \<Rightarrow> st
                    | Some cur \<Rightarrow> st\<lparr>closeCalls := closeCalls st @ [cur]\<rparr>)
         in if \<not> isReconnect c \<and> \<not> opened c then st1\<lparr>pollers := pollers st1 + 1\<rparr> else st1)
      else st)"

definition onClose :: "nat \<Rightarrow> api_state \<Rightarrow> api_state" where
  "onClose s st =
     (if s < length (sockets st) then
        (let c = sockets st ! s;
             st1 = st\<lparr>timers := timers st @ [300]\<rparr>
         in if opened c then emit Reconnecting (emit (Status JNull) st1) else st1)
      else st)"

text \<open>The timeout callback: \<open>this.socket = null; this.createSocket(true)\<close>.\<close>

definition reconnectCallback :: "api_state \<Rightarrow> api_state" where
  "reconnectCallback st = createSocket True (st\<lparr>socket := None\<rparr>)"

definition fireTimer :: "api_state \<Rightarrow> api_state" where
  "fireTimer st =
     (case timers st of [] \<Rightarrow> st
      | d # ds \<Rightarrow> reconnectCallback (st\<lparr>timers := ds\<rparr>))"

section \<open>Event client: REST helpers\<close>

text \<open>
  A promise is its settled outcome. \<open>fetch\<close> rejects on a network failure and resolves
  with a response otherwise; \<open>resp.json()\<close> rejects when the body does not parse.
\<close>

datatype 'a promise = Resolved 'a | Rejected thrown

datatype json_result = ParseFailure thrown | Parsed jsval

record response =
  status :: nat
  content :: json_result

datatype fetch_result = NetworkFailure thrown | Responded response

definition fetch :: "fetch_result \<Rightarrow> response promise" where
  "fetch fr = (case fr of NetworkFailure e \<Rightarrow> Rejected e | Responded r \<Rightarrow> Resolved r)"

definition json :: "response \<Rightarrow> jsval promise" where
  "json r = (case content r of ParseFailure e \<Rightarrow> Rejected e | Parsed v \<Rightarrow> Resolved v)"

definition thenP :: "'a promise \<Rightarrow> ('a \<Rightarrow> 'b promise) \<Rightarrow> 'b promise" where
  "thenP p f = (case p of Resolved v \<Rightarrow> f v | Rejected e \<Rightarrow> Rejected e)"

definition catchP :: "'a promise \<Rightarrow> (thrown \<Rightarrow> 'a promise) \<Rightarrow> 'a promise" where
  "catchP p h = (case p of Resolved v \<Rightarrow> Resolved v | Rejected e \<Rightarrow> h e)"

definition ofResult :: "thrown + 'a \<Rightarrow> 'a promise" where
  "ofResult r = (case r of Inl e \<Rightarrow> Rejected e | Inr v \<Rightarrow> Resolved v)"

record queue_response =
  running :: jsval
  pending :: jsval
  qerror :: "thrown option"

record history_response =
  history :: jsval
  herror :: "thrown option"

definition getQueue :: "fetch_result \<Rightarrow> queue_response promise" where
  "getQueue fr =
     catchP
       (thenP (thenP (fetch fr) json)
          (\<lambda>data. thenP (ofResult (getProp data ''queue_running''))
             (\<lambda>r. thenP (ofResult (getProp data ''queue_pending''))
                (\<lambda>p. Resolved \<lparr>running = r, pending = p, qerror = None\<rparr>))))
       (\<lambda>error. Resolved \<lparr>running = JArr [], pending = JArr [], qerror = Some error\<rparr>)"

definition getHistory :: "fetch_result \<Rightarrow> history_response promise" where
  "getHistory fr =
     catchP
       (thenP (thenP (fetch fr) json) (\<lambda>h. Resolved \<lparr>history = h, herror = None\<rparr>))
       (\<lambda>error. Resolved \<lparr>history = JObj [], herror = Some error\<rparr>)"

definition getExtensions :: "fetch_result \<Rightarrow> jsval promise" where
  "getExtensions fr = thenP (fetch fr) json"

definition getEmbeddings :: "fetch_result \<Rightarrow> jsval promise" where
  "getEmbeddings fr = thenP (fetch fr) json"

definition getNodeDefs :: "fetch_result \<Rightarrow> jsval promise" where
  "getNodeDefs fr = thenP (fetch fr) json"

definition getSystemStats :: "fetch_result \<Rightarrow> jsval promise" where
  "getSystemStats fr = thenP (fetch fr) json"

subsection \<open>Prompt submission\<close>

record prompt_request =
  client_id :: "string option"
  prompt :: jsval
  extra_data :: jsval
  front :: "bool option"
  number :: "int option"

text \<open>The request body as it is posted: \<open>client_id\<close> overwritten, \<open>front\<close> set for \<open>-1\<close>.\<close>

definition outgoingBody :: "string option \<Rightarrow> prompt_request \<Rightarrow> prompt_request" where
  "outgoingBody clientId body =
     (let b1 = body\<lparr>client_id := clientId\<rparr>
      in if number b1 = Some (- 1) then b1\<lparr>front := Some True\<rparr> else b1)"

datatype prompt_response = PromptSuccess jsval jsval | PromptError thrown

text \<open>
  \<open>queuePrompt\<close>: the body posted and the promise returned. \<open>JSON.stringify\<close> cannot
  fail on a tree-shaped body, so the early \<open>Promise.reject\<close> has no branch here.
\<close>

definition queuePrompt ::
  "string option \<Rightarrow> prompt_request \<Rightarrow> fetch_result \<Rightarrow> prompt_request \<times> prompt_response promise"
where
  "queuePrompt clientId body fr =
     (outgoingBody clientId body,
      catchP
        (thenP
           (thenP (fetch fr)
              (\<lambda>res. if status res \<noteq> 200
                      then thenP (json res) (\<lambda>payload. Rejected (Thrown payload))
                      else json res))
           (\<lambda>raw. thenP (ofResult (getProp raw ''prompt_id''))
              (\<lambda>pid. thenP (ofResult (getProp raw ''number''))
                 (\<lambda>n. Resolved (PromptSuccess pid n)))))
        (\<lambda>error. Resolved (PromptError error)))"

text \<open>The failure a request ends in, if any: the network error or the parse error.\<close>

definition failureOf :: "fetch_result \<Rightarrow> thrown option" where
  "failureOf fr =
     (case fr of NetworkFailure e \<Rightarrow> Some e
      | Responded r \<Rightarrow> (case content r of ParseFailure e \<Rightarrow> Some e | Parsed v \<Rightarrow> None))"

section \<open>Graph data model\<close>

text \<open>
  Modelled from the spec: the node mode (always-active, muted, bypassed). The enumeration
  is declared by the graph library; the source only names \<open>NodeMode.ALWAYS\<close>.
\<close>

datatype NodeMode = ALWAYS | MUTED | BYPASSED

text \<open>
  A link (\<open>LLink\<close>); \<open>link_id\<close> is its \<open>id\<close>. Node ids are UUID strings. The origin
  slot is a number, which goes into the prompt as it is; the target slot is only handed on
  as a slot index.
\<close>

record link =
  link_id :: nat
  origin_id :: string
  origin_slot :: jsnum
  target_id :: string
  target_slot :: nat
  data :: jsval

text \<open>
  An input slot. \<open>config\<close> is \<open>None\<close> when the slot has no \<open>config\<close> property;
  \<open>defaultValue\<close> is what \<open>config?.defaultValue\<close> reads (\<open>JUndefined\<close> when absent);
  \<open>slot_serialize\<close> is the truth value of the slot's \<open>serialize\<close> property.
\<close>

record slot_config =
  defaultValue :: jsval

record input_slot =
  name :: string
  link :: "nat option"
  config :: "slot_config option"
  slot_serialize :: bool

text \<open>
  Modelled from the spec: nodes, their roles and the tree of graphs. A node has an id, a
  mode, optional tags (\<open>properties.tags\<close>), the \<open>isBackendNode\<close> flag, its backend class,
  input slots, the names of its output slots, and a role: a subgraph holding its inner
  graph, a graph input or graph output with its name in the graph, one of the two reroute
  classes, or any other node. \<open>upstreamHook\<close> is \<open>None\<close> when the node has no
  \<open>getUpstreamLink\<close> method and otherwise the link that method returns.
\<close>

datatype node = Node
    (nid: string)
    (mode: NodeMode)
    (tags: "string list option")
    (isBackendNode: bool)
    (comfyClass: string)
    (inputs: "input_slot list")
    (outputs: "string list")
    (upstreamHook: "link option option")
    (kind: node_kind)
and node_kind =
    Subgraph graph
  | GraphInput string
  | GraphOutput string
  | Reroute
  | ComfyReroute
  | Plain
and graph = Graph (nodes: "node list") (links: "link list")

text \<open>
  A node object as the code holds it: the node together with the chain of subgraph nodes
  enclosing it, innermost first. The chain is what the back pointers \<open>node.graph\<close> and
  \<open>graph._subgraph_node\<close> lead to; a graph is addressed by the chain of subgraph nodes
  around it, the empty chain being the root graph, and \<open>graph._is_subgraph\<close> holds when
  the chain is not empty.
\<close>

type_synonym lnode = "node \<times> node list"

definition graphAt :: "graph \<Rightarrow> node list \<Rightarrow> graph" where
  "graphAt root ps =
     (case ps of [] \<Rightarrow> root
      | p # ps' \<Rightarrow> (case kind p of Subgraph g \<Rightarrow> g | _ \<Rightarrow> Graph [] []))"

subsection \<open>Accessors of the graph library\<close>

text \<open>
  Modelled from the spec: the accessors of the graph library that the source calls. A node
  is looked up by its id among the nodes of one graph, a link by its id among the links of
  the graph that owns the slot; the input node of a slot is the origin of its link; the
  parent subgraph nodes of a node are the subgraph nodes around it, innermost first.
\<close>

definition getNodeById :: "graph \<Rightarrow> node list \<Rightarrow> string \<Rightarrow> lnode option" where
  "getNodeById root ps i =
     map_option (\<lambda>n. (n, ps)) (find (\<lambda>n. nid n = i) (nodes (graphAt root ps)))"

definition getInputLink :: "graph \<Rightarrow> lnode \<Rightarrow> nat \<Rightarrow> link option" where
  "getInputLink root node slot =
     (case node of (n, ps) \<Rightarrow>
        if slot < length (inputs n) then
          (case link (inputs n ! slot) of None \<Rightarrow> None
           | Some k \<Rightarrow> find (\<lambda>l. link_id l = k) (links (graphAt root ps)))
        else None)"

definition getInputNode :: "graph \<Rightarrow> lnode \<Rightarrow> nat \<Rightarrow> lnode option" where
  "getInputNode root node slot =
     (case getInputLink root node slot of None \<Rightarrow> None
      | Some l \<Rightarrow> getNodeById root (snd node) (origin_id l))"

fun iterateParentSubgraphNodes :: "node list \<Rightarrow> lnode list" where
  "iterateParentSubgraphNodes [] = []"
| "iterateParentSubgraphNodes (p # ps) = (p, ps) # iterateParentSubgraphNodes ps"

text \<open>A number as an index into a list: a negative number finds nothing.\<close>

definition slotIndex :: "jsnum \<Rightarrow> nat option" where
  "slotIndex i = (if sint i < 0 then None else Some (nat (sint i)))"

text \<open>The graph output node inside subgraph \<open>s\<close> that carries the name of output slot \<open>i\<close>.\<close>

definition getInnerGraphOutputByIndex :: "lnode \<Rightarrow> jsnum \<Rightarrow> lnode option" where
  "getInnerGraphOutputByIndex subgraph i =
     (case subgraph of (s, ps) \<Rightarrow>
        (case slotIndex i of
           None \<Rightarrow> None
         | Some k \<Rightarrow>
             if k < length (outputs s) then
               (case kind s of
                  Subgraph g \<Rightarrow>
                    map_option (\<lambda>n. (n, s # ps))
                      (find (\<lambda>n. kind n = GraphOutput (outputs s ! k)) (nodes g))
                | _ \<Rightarrow> None)
             else None))"

fun findIndex :: "('a \<Rightarrow> bool) \<Rightarrow> 'a list \<Rightarrow> nat option" where
  "findIndex P [] = None"
| "findIndex P (x # xs) = (if P x then Some 0 else map_option Suc (findIndex P xs))"

section \<open>Graph compiler: active nodes\<close>

definition isReroute :: "node \<Rightarrow> bool" where
  "isReroute n = (kind n = Reroute \<or> kind n = ComfyReroute)"

definition isGraphInputOutput :: "node \<Rightarrow> bool" where
  "isGraphInputOutput n =
     (case kind n of GraphInput v \<Rightarrow> True | GraphOutput v \<Rightarrow> True | _ \<Rightarrow> False)"

text \<open>The loop of \<open>nodeHasTag\<close> climbs from the node through its parent subgraph nodes.\<close>

fun nodeHasTag :: "node \<Rightarrow> node list \<Rightarrow> string \<Rightarrow> bool \<Rightarrow> bool" where
  "nodeHasTag n ps tag checkParents =
     (if (case tags n of None \<Rightarrow> False | Some ts \<Rightarrow> tag \<in> set ts) then True
      else if \<not> checkParents then False
      else (case ps of [] \<Rightarrow> False | p # ps' \<Rightarrow> nodeHasTag p ps' tag checkParents))"

text \<open>A tag filter is in force when \<open>tag\<close> is truthy: neither \<open>null\<close> nor the empty string.\<close>

definition isActiveNode :: "lnode option \<Rightarrow> string option \<Rightarrow> bool" where
  "isActiveNode node tag =
     (case node of
        None \<Rightarrow> False
      | Some (n, ps) \<Rightarrow>
          if \<not> isReroute n \<and> \<not> isGraphInputOutput n
             \<and> (case tag of None \<Rightarrow> False | Some t \<Rightarrow> t \<noteq> [] \<and> \<not> nodeHasTag n ps t True)
          then False
          else if mode n \<noteq> ALWAYS then False
          else True)"

definition isActiveBackendNode :: "lnode \<Rightarrow> string option \<Rightarrow> bool" where
  "isActiveBackendNode node tag =
     (if \<not> isBackendNode (fst node) then False
      else if \<not> isActiveNode (Some node) tag then False
      else if snd node \<noteq> []
              \<and> list_ex (\<lambda>n. \<not> isActiveNode (Some n) tag) (iterateParentSubgraphNodes (snd node))
      then False
      else True)"

section \<open>Graph compiler: upstream node locator\<close>

text \<open>\<open>UpstreamResult\<close>: the graph (as its chain), the link, the input slot and the node.\<close>

type_synonym UpstreamResult = "node list option \<times> link option \<times> nat option \<times> lnode option"

definition followSubgraph :: "graph \<Rightarrow> lnode \<Rightarrow> link option \<Rightarrow> thrown + UpstreamResult" where
  "followSubgraph root subgraph currentLink =
     (case currentLink of
        None \<Rightarrow> Inl (JsError ''TypeError'')
      | Some l \<Rightarrow>
          if origin_id l \<noteq> nid (fst subgraph) then Inl (JsError ''Invalid link and graph output!'')
          else
            (case getInnerGraphOutputByIndex subgraph (origin_slot l) of
               None \<Rightarrow> Inl (JsError ''No inner graph input!'')
             | Some innerGraphOutput \<Rightarrow>
                 Inr (Some (snd innerGraphOutput), getInputLink root innerGraphOutput 0, Some 0,
                      Some innerGraphOutput)))"

definition followGraphInput ::
  "graph \<Rightarrow> lnode \<Rightarrow> string \<Rightarrow> link option \<Rightarrow> thrown + UpstreamResult"
where
  "followGraphInput root graphInput nameInGraph currentLink =
     (case currentLink of
        None \<Rightarrow> Inl (JsError ''TypeError'')
      | Some l \<Rightarrow>
          if origin_id l \<noteq> nid (fst graphInput) then Inl (JsError ''Invalid link and graph input!'')
          else
            (case snd graphInput of
               [] \<Rightarrow> Inl (JsError ''No outer subgraph!'')
             | p # ps' \<Rightarrow>
                 (case findIndex (\<lambda>i. name i = nameInGraph) (inputs p) of
                    None \<Rightarrow> Inl (JsError ''No outer input slot!'')
                  | Some outerInputIndex \<Rightarrow>
                      Inr (Some ps', getInputLink root (p, ps') outerInputIndex,
                           Some outerInputIndex, Some (p, ps')))))"

definition getUpstreamLink :: "graph \<Rightarrow> lnode \<Rightarrow> link option \<Rightarrow> thrown + UpstreamResult" where
  "getUpstreamLink root parent currentLink =
     (case kind (fst parent) of
        Subgraph g \<Rightarrow> followSubgraph root parent currentLink
      | GraphInput nameInGraph \<Rightarrow> followGraphInput root parent nameInGraph currentLink
      | _ \<Rightarrow>
          (case upstreamHook (fst parent) of
             Some l \<Rightarrow> Inr (Some (snd parent), l, map_option target_slot l, Some parent)
           | None \<Rightarrow>
               if length (inputs (fst parent)) = 1 \<and> getInputLink root parent 0 \<noteq> None
               then Inr (Some (snd parent), getInputLink root parent 0, Some 0, Some parent)
               else Inr (None, None, None, None)))"

text \<open>The variables of \<open>locateUpstream\<close> that its loop updates.\<close>

record loop_state =
  parent :: "lnode option"
  currentLink :: "link option"
  currentInputSlot :: "nat option"
  currentNode :: "lnode option"
  seen :: "nat set"

definition shouldFollowParent ::
  "string option \<Rightarrow> (lnode \<Rightarrow> link option \<Rightarrow> bool) \<Rightarrow> loop_state \<Rightarrow> bool"
where
  "shouldFollowParent tag isTheTargetNode st =
     (case parent st of
        None \<Rightarrow> False
      | Some p \<Rightarrow> isActiveNode (Some p) tag \<and> \<not> isTheTargetNode p (currentLink st))"

datatype 's iteration = Throw thrown | Break 's | Continue 's

text \<open>One run of the loop body, entered with a parent that is not null.\<close>

definition loopBody :: "graph \<Rightarrow> string option \<Rightarrow> loop_state \<Rightarrow> loop_state iteration" where
  "loopBody root tag st =
     (case parent st of
        None \<Rightarrow> Throw (JsError ''TypeError'')
      | Some p \<Rightarrow>
          (case getUpstreamLink root p (currentLink st) of
             Inl e \<Rightarrow> Throw e
           | Inr (nextGraph, nextLink, nextInputSlot, nextNode) \<Rightarrow>
               (let st1 = st\<lparr>currentInputSlot := nextInputSlot, currentNode := nextNode\<rparr> in
                case nextLink of
                  None \<Rightarrow> Break st1
                | Some l \<Rightarrow>
                    if link_id l \<notin> seen st1 then
                      (let st2 = st1\<lparr>seen := insert (link_id l) (seen st1)\<rparr> in
                       case nextGraph of
                         None \<Rightarrow> Throw (JsError ''TypeError'')
                       | Some g \<Rightarrow>
                           (let nextParent = getNodeById root g (origin_id l) in
                            if \<not> isActiveNode (Some p) tag then Continue (st2\<lparr>parent := None\<rparr>)
                            else Continue (st2\<lparr>currentLink := Some l, parent := nextParent\<rparr>)))
                    else Continue (st1\<lparr>parent := None\<rparr>))))"

subsection \<open>Termination of the traversal loop\<close>

text \<open>
  All links the traversal can ever read: those of the root graph, of the graphs nested
  in the current parent and in the subgraph nodes around it, and the links their
  \<open>getUpstreamLink\<close> methods return. Every iteration that goes on records a link id of
  this finite set that was not yet in \<open>seen\<close>.
\<close>

fun nodeLinks :: "node \<Rightarrow> link set"
and kindLinks :: "node_kind \<Rightarrow> link set"
and graphLinks :: "graph \<Rightarrow> link set" where
  "nodeLinks (Node i m t b c ins outs hook k) =
     (case hook of Some (Some l) \<Rightarrow> {l} | _ \<Rightarrow> {}) \<union> kindLinks k"
| "kindLinks (Subgraph g) = graphLinks g"
| "kindLinks (GraphInput v) = {}"
| "kindLinks (GraphOutput v) = {}"
| "kindLinks Reroute = {}"
| "kindLinks ComfyReroute = {}"
| "kindLinks Plain = {}"
| "graphLinks (Graph ns ls) = set ls \<union> (\<Union>n\<in>set ns. nodeLinks n)"

definition reach :: "graph \<Rightarrow> lnode option \<Rightarrow> link set" where
  "reach root po =
     graphLinks root \<union>
     (case po of None \<Rightarrow> {} | Some (n, ps) \<Rightarrow> nodeLinks n \<union> (\<Union>p\<in>set ps. nodeLinks p))"

lemma finite_links:
  "finite (nodeLinks n)" "finite (kindLinks k)" "finite (graphLinks g)"
  by (induction n and k and g rule: nodeLinks_kindLinks_graphLinks.induct)
     (auto split: option.splits)

lemma finite_reach: "finite (reach root po)"
  by (auto simp: reach_def finite_links split: option.splits)


lemma node_in_graph_links: "n \<in> set (nodes g) \<Longrightarrow> nodeLinks n \<subseteq> graphLinks g"
  by (cases g) auto

lemma link_in_graph_links: "l \<in> set (links g) \<Longrightarrow> l \<in> graphLinks g"
  by (cases g) auto

lemma subgraph_links: "kind p = Subgraph g \<Longrightarrow> graphLinks g \<subseteq> nodeLinks p"
  by (cases p) auto

lemma hook_links: "upstreamHook n = Some (Some l) \<Longrightarrow> l \<in> nodeLinks n"
  by (cases n) auto

lemma graphAt_links: "graphLinks (graphAt root ps) \<subseteq> graphLinks root \<union> (\<Union>p\<in>set ps. nodeLinks p)"
  by (auto simp: graphAt_def split: list.splits node_kind.splits dest: subgraph_links)

lemma graphAt_Cons_links: "graphLinks (graphAt root (p # ps)) \<subseteq> nodeLinks p"
  by (auto simp: graphAt_def split: node_kind.splits dest: subgraph_links)

lemma getInputLink_links:
  "getInputLink root (n, ps) i = Some l \<Longrightarrow> l \<in> graphLinks (graphAt root ps)"
  by (auto simp: getInputLink_def find_Some_iff split: if_splits option.splits
      intro!: link_in_graph_links)

lemma getNodeById_Some:
  "getNodeById root ps i = Some (n, qs) \<Longrightarrow> qs = ps \<and> n \<in> set (nodes (graphAt root ps))"
  by (auto simp: getNodeById_def find_Some_iff)

lemma getNodeById_links:
  assumes "getNodeById root ps i = Some (n, qs)"
  shows "nodeLinks n \<subseteq> graphLinks (graphAt root ps)"
  using getNodeById_Some [OF assms] node_in_graph_links by blast

definition chainLinks :: "node list \<Rightarrow> link set" where
  "chainLinks ps = (\<Union>p\<in>set ps. nodeLinks p)"

lemma getInnerGraphOutputByIndex_Some:
  "getInnerGraphOutputByIndex (s, ps) i = Some go \<Longrightarrow> snd go = s # ps"
  by (auto simp: getInnerGraphOutputByIndex_def split: if_splits node_kind.splits option.splits)

lemma followSubgraph_Inr:
  assumes "followSubgraph root (n, ps) cl = Inr (Some g, l, slot, nd)"
  shows "g = n # ps \<and> (\<exists>m. getInputLink root (m, n # ps) 0 = l)"
proof -
  from assms obtain cur where cl: "cl = Some cur"
    by (cases cl) (auto simp: followSubgraph_def)
  with assms obtain go where go: "getInnerGraphOutputByIndex (n, ps) (origin_slot cur) = Some go"
    by (cases "getInnerGraphOutputByIndex (n, ps) (origin_slot cur)")
       (auto simp: followSubgraph_def split: if_splits)
  with assms cl have g: "g = snd go" and l: "getInputLink root go 0 = l"
    by (auto simp: followSubgraph_def split: if_splits)
  from getInnerGraphOutputByIndex_Some [OF go] have "snd go = n # ps" .
  then show ?thesis using g l by (cases go) auto
qed

lemma followGraphInput_Inr:
  assumes "followGraphInput root (n, ps) v cl = Inr (Some g, Some l, slot, nd)"
  shows "\<exists>p idx. ps = p # g \<and> getInputLink root (p, g) idx = Some l"
  using assms
  by (auto simp: followGraphInput_def split: option.splits if_splits list.splits)

lemma getUpstreamLink_same_graph:
  assumes "getUpstreamLink root (n, ps) cl = Inr (Some g, Some l, slot, nd)"
    and "\<And>sg. kind n \<noteq> Subgraph sg" and "\<And>v. kind n \<noteq> GraphInput v"
  shows "g = ps \<and> (upstreamHook n = Some (Some l) \<or> getInputLink root (n, ps) 0 = Some l)"
  using assms
  by (cases "kind n") (auto simp: getUpstreamLink_def split: option.splits if_splits)

lemma getUpstreamLink_links:
  assumes "getUpstreamLink root (n, ps) cl = Inr (Some g, Some l, slot, nd)"
  shows "l \<in> reach root (Some (n, ps)) \<and> chainLinks g \<subseteq> nodeLinks n \<union> chainLinks ps"
proof -
  consider (sub) sg where "kind n = Subgraph sg" | (inp) v where "kind n = GraphInput v"
    | (other) "\<And>sg. kind n \<noteq> Subgraph sg" "\<And>v. kind n \<noteq> GraphInput v"
    by (cases "kind n") auto
  then show ?thesis
  proof cases
    case sub
    with assms have "followSubgraph root (n, ps) cl = Inr (Some g, Some l, slot, nd)"
      by (simp add: getUpstreamLink_def)
    from followSubgraph_Inr [OF this] obtain m where
      g: "g = n # ps" and l: "getInputLink root (m, n # ps) 0 = Some l" by blast
    from l have "l \<in> graphLinks (graphAt root (n # ps))"
      by (rule getInputLink_links)
    then have "l \<in> nodeLinks n" using graphAt_Cons_links by blast
    then show ?thesis using g by (auto simp: reach_def chainLinks_def)
  next
    case inp
    with assms have "followGraphInput root (n, ps) v cl = Inr (Some g, Some l, slot, nd)"
      by (simp add: getUpstreamLink_def)
    from followGraphInput_Inr [OF this] obtain p ps' idx where
      ps: "ps = p # ps'" and g: "g = ps'" and l: "getInputLink root (p, ps') idx = Some l"
      by blast
    from l have "l \<in> graphLinks (graphAt root ps')" by (rule getInputLink_links)
    then have "l \<in> graphLinks root \<union> chainLinks ps'"
      using graphAt_links unfolding chainLinks_def by blast
    then show ?thesis using ps g by (auto simp: reach_def chainLinks_def)
  next
    case other
    from getUpstreamLink_same_graph [OF assms other] have g: "g = ps"
      and l: "upstreamHook n = Some (Some l) \<or> getInputLink root (n, ps) 0 = Some l"
      by blast+
    from l have "l \<in> nodeLinks n \<or> l \<in> graphLinks (graphAt root ps)"
      by (auto dest: hook_links getInputLink_links)
    then have "l \<in> reach root (Some (n, ps))"
      using graphAt_links [of root ps] by (auto simp: reach_def)
    then show ?thesis using g by auto
  qed
qed

definition loopMeasure ::
  "graph \<Rightarrow> string option \<Rightarrow> (lnode \<Rightarrow> link option \<Rightarrow> bool) \<Rightarrow> loop_state \<Rightarrow> nat"
where
  "loopMeasure root tag tgt st =
     (if shouldFollowParent tag tgt st
      then Suc (card (link_id ` reach root (parent st) - seen st)) else 0)"

lemma loopBody_Continue:
  assumes "loopBody root tag st = Continue st'" and "parent st = Some (n, ps)"
  shows "parent st' = None
       \<or> (\<exists>g l slot nd. getUpstreamLink root (n, ps) (currentLink st) = Inr (Some g, Some l, slot, nd)
            \<and> link_id l \<notin> seen st \<and> seen st' = insert (link_id l) (seen st)
            \<and> parent st' = getNodeById root g (origin_id l))"
  using assms
  by (auto simp: loopBody_def Let_def split: sum.splits option.splits if_splits)

lemma reach_next:
  assumes "getUpstreamLink root (n, ps) cl = Inr (Some g, Some l, slot, nd)"
  shows "reach root (getNodeById root g i) \<subseteq> reach root (Some (n, ps))"
proof (cases "getNodeById root g i")
  case None
  then show ?thesis by (simp add: reach_def)
next
  case (Some a)
  obtain m qs where a: "a = (m, qs)" by (cases a)
  from Some a getNodeById_Some have qs: "qs = g" by blast
  from Some a have "nodeLinks m \<subseteq> graphLinks (graphAt root g)"
    by (auto dest: getNodeById_links)
  then have "nodeLinks m \<subseteq> graphLinks root \<union> chainLinks g"
    using graphAt_links [of root g] by (auto simp: chainLinks_def)
  moreover from getUpstreamLink_links [OF assms]
  have "chainLinks g \<subseteq> nodeLinks n \<union> chainLinks ps" by simp
  ultimately show ?thesis using Some a qs
    by (auto simp: reach_def chainLinks_def)
qed

lemma loopBody_decreases:
  assumes "shouldFollowParent tag tgt st" and "loopBody root tag st = Continue st'"
  shows "loopMeasure root tag tgt st' < loopMeasure root tag tgt st"
proof -
  from assms(1) obtain n ps where p: "parent st = Some (n, ps)"
    by (auto simp: shouldFollowParent_def split: option.splits)
  from loopBody_Continue [OF assms(2) p] show ?thesis
  proof
    assume "parent st' = None"
    then show ?thesis using assms(1) by (simp add: loopMeasure_def shouldFollowParent_def)
  next
    assume "\<exists>g l slot nd. getUpstreamLink root (n, ps) (currentLink st) = Inr (Some g, Some l, slot, nd)
            \<and> link_id l \<notin> seen st \<and> seen st' = insert (link_id l) (seen st)
            \<and> parent st' = getNodeById root g (origin_id l)"
    then obtain g l slot nd where
      up: "getUpstreamLink root (n, ps) (currentLink st) = Inr (Some g, Some l, slot, nd)"
      and fresh: "link_id l \<notin> seen st" and seen': "seen st' = insert (link_id l) (seen st)"
      and par: "parent st' = getNodeById root g (origin_id l)" by blast
    from getUpstreamLink_links [OF up] have "l \<in> reach root (parent st)" using p by simp
    moreover from reach_next [OF up] have "reach root (parent st') \<subseteq> reach root (parent st)"
      using p par by simp
    ultimately have "link_id ` reach root (parent st') - seen st'
        \<subset> link_id ` reach root (parent st) - seen st"
      using fresh seen' by auto
    then have "card (link_id ` reach root (parent st') - seen st')
        < card (link_id ` reach root (parent st) - seen st)"
      by (intro psubset_card_mono) (auto simp: finite_reach)
    then show ?thesis using assms(1) by (simp add: loopMeasure_def)
  qed
qed

text \<open>The \<open>while\<close> loop of \<open>locateUpstream\<close>.\<close>

function locateLoop ::
  "graph \<Rightarrow> string option \<Rightarrow> (lnode \<Rightarrow> link option \<Rightarrow> bool) \<Rightarrow> loop_state \<Rightarrow> thrown + loop_state"
where
  "locateLoop root tag isTheTargetNode st =
     (if shouldFollowParent tag isTheTargetNode st then
        (case loopBody root tag st of
           Throw e \<Rightarrow> Inl e
         | Break st' \<Rightarrow> Inr st'
         | Continue st' \<Rightarrow> locateLoop root tag isTheTargetNode st')
      else Inr st)"
  by pat_completeness auto
termination
  by (relation "measure (\<lambda>(root, tag, tgt, st). loopMeasure root tag tgt st)")
     (auto simp: loopBody_decreases)

text \<open>
  The same loop with a bound on the number of evaluations of its condition: \<open>None\<close>
  when the bound is used up before the loop ends.
\<close>

fun locateLoopFuel ::
  "nat \<Rightarrow> graph \<Rightarrow> string option \<Rightarrow> (lnode \<Rightarrow> link option \<Rightarrow> bool) \<Rightarrow> loop_state
     \<Rightarrow> (thrown + loop_state) option"
where
  "locateLoopFuel 0 root tag isTheTargetNode st = None"
| "locateLoopFuel (Suc k) root tag isTheTargetNode st =
     (if shouldFollowParent tag isTheTargetNode st then
        (case loopBody root tag st of
           Throw e \<Rightarrow> Some (Inl e)
         | Break st' \<Rightarrow> Some (Inr st')
         | Continue st' \<Rightarrow> locateLoopFuel k root tag isTheTargetNode st')
      else Some (Inr st))"

type_synonym LocateResult = "lnode option \<times> link option \<times> nat option \<times> lnode option"

text \<open>The final test of \<open>locateUpstream\<close> and the tuple it returns.\<close>

definition locateResult ::
  "string option \<Rightarrow> (lnode \<Rightarrow> link option \<Rightarrow> bool) \<Rightarrow> loop_state \<Rightarrow> LocateResult"
where
  "locateResult tag isTheTargetNode st =
     (case parent st of
        None \<Rightarrow> (None, currentLink st, currentInputSlot st, currentNode st)
      | Some p \<Rightarrow>
          if \<not> isActiveNode (Some p) tag \<or> \<not> isTheTargetNode p (currentLink st)
             \<or> currentLink st = None
          then (None, currentLink st, currentInputSlot st, currentNode st)
          else (Some p, currentLink st, currentInputSlot st, currentNode st))"

definition loopInit :: "graph \<Rightarrow> lnode \<Rightarrow> nat \<Rightarrow> lnode \<Rightarrow> loop_state" where
  "loopInit root fromNode inputIndex p =
     \<lparr>parent = Some p, currentLink = getInputLink root fromNode inputIndex,
      currentInputSlot = Some inputIndex, currentNode = Some fromNode, seen = {}\<rparr>"

definition locateUpstream ::
  "graph \<Rightarrow> (lnode \<Rightarrow> link option \<Rightarrow> bool) \<Rightarrow> lnode \<Rightarrow> nat \<Rightarrow> string option
     \<Rightarrow> thrown + LocateResult"
where
  "locateUpstream root isTheTargetNode fromNode inputIndex tag =
     (case getInputNode root fromNode inputIndex of
        None \<Rightarrow> Inr (None, None, None, None)
      | Some p \<Rightarrow>
          (case locateLoop root tag isTheTargetNode (loopInit root fromNode inputIndex p) of
             Inl e \<Rightarrow> Inl e
           | Inr st \<Rightarrow> Inr (locateResult tag isTheTargetNode st)))"

definition locateUpstreamFuel ::
  "nat \<Rightarrow> graph \<Rightarrow> (lnode \<Rightarrow> link option \<Rightarrow> bool) \<Rightarrow> lnode \<Rightarrow> nat \<Rightarrow> string option
     \<Rightarrow> (thrown + LocateResult) option"
where
  "locateUpstreamFuel k root isTheTargetNode fromNode inputIndex tag =
     (case getInputNode root fromNode inputIndex of
        None \<Rightarrow> Some (Inr (None, None, None, None))
      | Some p \<Rightarrow>
          (case locateLoopFuel k root tag isTheTargetNode
                  (loopInit root fromNode inputIndex p) of
             None \<Rightarrow> None
           | Some (Inl e) \<Rightarrow> Some (Inl e)
           | Some (Inr st) \<Rightarrow> Some (Inr (locateResult tag isTheTargetNode st))))"

section \<open>Graph compiler: prompt serializer\<close>

type_synonym SerializedPromptInputs = "string \<rightharpoonup> jsval"

text \<open>
  The body of the loop of \<open>serializeInputValues\<close> for slot \<open>i\<close>: the slot is skipped
  when its input node is not always-active, gets its configured default when the link or
  the input node is missing, and otherwise the data of its link, if the slot is to be
  serialized and the value goes from a node that is not a backend node into a backend node.
\<close>

definition serializeInputValue ::
  "graph \<Rightarrow> lnode \<Rightarrow> nat \<Rightarrow> SerializedPromptInputs \<Rightarrow> SerializedPromptInputs"
where
  "serializeInputValue root node i ins =
     (let inp = inputs (fst node) ! i;
          inputLink = getInputLink root node i;
          inputNode = getInputNode root node i
      in if (case inputNode of None \<Rightarrow> False | Some m \<Rightarrow> mode (fst m) \<noteq> ALWAYS) then ins
         else
           (case (inputLink, inputNode) of
              (Some l, Some m) \<Rightarrow>
                (let serialize =
                       (case config inp of None \<Rightarrow> True | Some c \<Rightarrow> slot_serialize inp);
                     isInputBackendNode = isBackendNode (fst m)
                 in if serialize \<and> isBackendNode (fst node) \<and> \<not> isInputBackendNode
                    then ins(name inp \<mapsto> data l) else ins)
            | _ \<Rightarrow>
                (case config inp of
                   None \<Rightarrow> ins
                 | Some c \<Rightarrow>
                     if defaultValue c \<noteq> JNull \<and> defaultValue c \<noteq> JUndefined
                     then ins(name inp \<mapsto> defaultValue c) else ins)))"

definition serializeInputValues :: "graph \<Rightarrow> lnode \<Rightarrow> SerializedPromptInputs" where
  "serializeInputValues root node =
     fold (serializeInputValue root node) [0..<length (inputs (fst node))] Map.empty"

text \<open>The target test of the serializer's locator: \<open>node.isBackendNode\<close>.\<close>

definition backendTest :: "lnode \<Rightarrow> link option \<Rightarrow> bool" where
  "backendTest node l = isBackendNode (fst node)"

text \<open>
  The body of the loop of \<open>serializeBackendLinks\<close> for slot \<open>i\<close>. The link is recorded
  unless \<open>input.name in inputs\<close>, which holds for a name recorded before and for the
  name of an inherited member.
\<close>

definition serializeBackendLink ::
  "graph \<Rightarrow> lnode \<Rightarrow> string option \<Rightarrow> nat \<Rightarrow> thrown + SerializedPromptInputs
     \<Rightarrow> thrown + SerializedPromptInputs"
where
  "serializeBackendLink root node tag i acc =
     (case acc of
        Inl e \<Rightarrow> Inl e
      | Inr ins \<Rightarrow>
          (case locateUpstream root backendTest node i tag of
             Inl e \<Rightarrow> Inl e
           | Inr (backendNode, linkLeadingTo, slot, lastNode) \<Rightarrow>
               (case backendNode of
                  None \<Rightarrow> Inr ins
                | Some b \<Rightarrow>
                    (let input = inputs (fst node) ! i in
                     if ins (name input) = None \<and> \<not> inherited (name input) then
                       (case linkLeadingTo of
                          None \<Rightarrow> Inl (JsError ''TypeError'')
                        | Some l \<Rightarrow>
                            Inr (ins(name input \<mapsto>
                                   JArr [JStr (origin_id l), JNum (origin_slot l)])))
                     else Inr ins))))"

definition serializeBackendLinks ::
  "graph \<Rightarrow> lnode \<Rightarrow> string option \<Rightarrow> thrown + SerializedPromptInputs"
where
  "serializeBackendLinks root node tag =
     fold (serializeBackendLink root node tag) [0..<length (inputs (fst node))] (Inr Map.empty)"

record prompt_entry =
  p_inputs :: SerializedPromptInputs
  class_type :: string

type_synonym SerializedPromptInputsAll = "string \<rightharpoonup> prompt_entry"

text \<open>The body of the loop over the execution order.\<close>

definition serializeNode ::
  "graph \<Rightarrow> string option \<Rightarrow> lnode \<Rightarrow> thrown + SerializedPromptInputsAll
     \<Rightarrow> thrown + SerializedPromptInputsAll"
where
  "serializeNode root tag node acc =
     (case acc of
        Inl e \<Rightarrow> Inl e
      | Inr out \<Rightarrow>
          if \<not> isActiveBackendNode node tag then Inr out
          else
            (let ins = serializeInputValues root node in
             case serializeBackendLinks root node tag of
               Inl e \<Rightarrow> Inl e
             | Inr lnks \<Rightarrow>
                 Inr (out(nid (fst node) \<mapsto>
                        \<lparr>p_inputs = ins ++ lnks, class_type = comfyClass (fst node)\<rparr>))))"

text \<open>
  The pruning pass. An entry is deleted when its value is an array of length 2 and
  \<open>output[first]\<close> is falsy for its first element: the element, as a property key, is
  neither a key of \<open>output\<close> (whose values are objects) nor the name of an inherited
  member. The pass deletes inputs only, so the keys of \<open>output\<close> it tests against are
  those the first loop left.
\<close>

definition isPruned :: "SerializedPromptInputsAll \<Rightarrow> jsval \<Rightarrow> bool" where
  "isPruned out v =
     (case v of
        JArr [a, b] \<Rightarrow> out (jsString a) = None \<and> \<not> inherited (jsString a)
      | _ \<Rightarrow> False)"

definition pruneInputs ::
  "SerializedPromptInputsAll \<Rightarrow> SerializedPromptInputs \<Rightarrow> SerializedPromptInputs"
where
  "pruneInputs out ins =
     (\<lambda>inputName. case ins inputName of
                     None \<Rightarrow> None
                   | Some v \<Rightarrow> if isPruned out v then None else Some v)"

definition prune :: "SerializedPromptInputsAll \<Rightarrow> SerializedPromptInputsAll" where
  "prune out =
     (\<lambda>nodeId. case out nodeId of
                  None \<Rightarrow> None
                | Some e \<Rightarrow> Some (e\<lparr>p_inputs := pruneInputs out (p_inputs e)\<rparr>))"

record SerializedPrompt =
  workflow :: jsval
  prompt_output :: SerializedPromptInputsAll

text \<open>
  \<open>serialize\<close>. Its graph argument is given by what the three calls on it return: the
  graph as \<open>runStep\<close> left it (\<open>root\<close>), the snapshot \<open>graph.serialize()\<close> (\<open>snapshot\<close>) and
  the execution order \<open>computeExecutionOrderRecursive\<close> (\<open>order\<close>).
\<close>

definition serializeAll ::
  "graph \<Rightarrow> lnode list \<Rightarrow> string option \<Rightarrow> thrown + SerializedPromptInputsAll"
where
  "serializeAll root order tag = fold (serializeNode root tag) order (Inr Map.empty)"

definition serialize ::
  "graph \<Rightarrow> jsval \<Rightarrow> lnode list \<Rightarrow> string option \<Rightarrow> thrown + SerializedPrompt"
where
  "serialize root snapshot order tag =
     (case serializeAll root order tag of
        Inl e \<Rightarrow> Inl e
      | Inr out \<Rightarrow> Inr \<lparr>workflow = snapshot, prompt_output = prune out\<rparr>)"

section \<open>Erasing the tags on wires\<close>

text \<open>
  Reroutes and graph inputs and outputs are the wires of a graph. \<open>untagGraph\<close> erases
  the tags they carry, throughout the nested graphs, and leaves everything else as it is.
\<close>

fun keepTags :: "node_kind \<Rightarrow> string list option \<Rightarrow> string list option" where
  "keepTags (Subgraph g) t = t"
| "keepTags Plain t = t"
| "keepTags k t = None"

fun untagNode :: "node \<Rightarrow> node"
and untagKind :: "node_kind \<Rightarrow> node_kind"
and untagGraph :: "graph \<Rightarrow> graph" where
  "untagNode (Node i m t b c ins outs hook k) =
     Node i m (keepTags k t) b c ins outs hook (untagKind k)"
| "untagKind (Subgraph g) = Subgraph (untagGraph g)"
| "untagKind (GraphInput v) = GraphInput v"
| "untagKind (GraphOutput v) = GraphOutput v"
| "untagKind Reroute = Reroute"
| "untagKind ComfyReroute = ComfyReroute"
| "untagKind Plain = Plain"
| "untagGraph (Graph ns ls) = Graph (map untagNode ns) ls"

definition untagL :: "lnode \<Rightarrow> lnode" where
  "untagL node = (untagNode (fst node), map untagNode (snd node))"

definition isWire :: "node \<Rightarrow> bool" where
  "isWire n = (isReroute n \<or> isGraphInputOutput n)"

definition wireFree :: "node list \<Rightarrow> bool" where
  "wireFree ps = (\<forall>p\<in>set ps. \<not> isWire p)"

text \<open>Results of the locator's helpers, with tags on wires erased.\<close>

definition untagResult :: "UpstreamResult \<Rightarrow> UpstreamResult" where
  "untagResult r =
     (case r of (g, l, slot, nd) \<Rightarrow> (map_option (map untagNode) g, l, slot, map_option untagL nd))"

definition untagState :: "loop_state \<Rightarrow> loop_state" where
  "untagState st =
     st\<lparr>parent := map_option untagL (parent st), currentNode := map_option untagL (currentNode st)\<rparr>"

definition stateOK :: "loop_state \<Rightarrow> bool" where
  "stateOK st = (case parent st of None \<Rightarrow> True | Some p \<Rightarrow> wireFree (snd p))"

definition respectsUntag :: "(lnode \<Rightarrow> link option \<Rightarrow> bool) \<Rightarrow> bool" where
  "respectsUntag tgt = (\<forall>p l. tgt (untagL p) l = tgt p l)"

definition untagLocated :: "LocateResult \<Rightarrow> LocateResult" where
  "untagLocated r =
     (case r of (found, l, slot, nd) \<Rightarrow> (map_option untagL found, l, slot, map_option untagL nd))"

section \<open>Example graphs\<close>





text \<open>Two backend nodes, the first one wired into the second.\<close>

definition linkA :: node where
  "linkA = Node ''a'' ALWAYS None True ''CheckpointLoader'' [] [''MODEL''] None Plain"

definition linkB :: node where
  "linkB = Node ''b'' ALWAYS None True ''KSampler''
     [\<lparr>name = ''model'', link = Some 1, config = None, slot_serialize = True\<rparr>]
     [''LATENT''] None Plain"

definition linkRoot :: graph where
  "linkRoot = Graph [linkA, linkB]
     [\<lparr>link_id = 1, origin_id = ''a'', origin_slot = 0, target_id = ''b'', target_slot = 0,
       data = JUndefined\<rparr>]"

definition linkOrder :: "lnode list" where
  "linkOrder = [(linkA, []), (linkB, [])]"

text \<open>
  Tags and subgraphs: an untagged backend node inside a subgraph tagged \<open>t\<close>, and a
  backend node tagged \<open>t\<close> inside an untagged subgraph.
\<close>

definition tagN :: node where
  "tagN = Node ''n'' ALWAYS None True ''KSampler'' [] [''LATENT''] None Plain"

definition tagS :: node where
  "tagS = Node ''s'' ALWAYS (Some [''t'']) False [] [] [] None (Subgraph (Graph [tagN] []))"

definition tagM :: node where
  "tagM = Node ''m'' ALWAYS (Some [''t'']) True ''VAEDecode'' [] [''IMAGE''] None Plain"

definition tagU :: node where
  "tagU = Node ''u'' ALWAYS None False [] [] [] None (Subgraph (Graph [tagM] []))"

definition tagRoot :: graph where
  "tagRoot = Graph [tagS, tagU] []"

definition tagOrder :: "lnode list" where
  "tagOrder = [(tagN, [tagS]), (tagS, []), (tagM, [tagU]), (tagU, [])]"

text \<open>An untagged backend node inside a subgraph tagged \<open>t\<close> inside an untagged subgraph.\<close>

definition nestN :: node where
  "nestN = Node ''n'' ALWAYS None True ''KSampler'' [] [''LATENT''] None Plain"

definition nestInner :: node where
  "nestInner =
     Node ''s1'' ALWAYS (Some [''t'']) False [] [] [] None (Subgraph (Graph [nestN] []))"

definition nestOuter :: node where
  "nestOuter = Node ''s2'' ALWAYS None False [] [] [] None (Subgraph (Graph [nestInner] []))"

definition nestRoot :: graph where
  "nestRoot = Graph [nestOuter] []"

definition nestOrder :: "lnode list" where
  "nestOrder = [(nestN, [nestInner, nestOuter]), (nestInner, [nestOuter]), (nestOuter, [])]"

text \<open>A bypassed backend node and a bypassed frontend node, both wired into a backend node.\<close>

definition byA :: node where
  "byA = Node ''a'' BYPASSED None True ''CheckpointLoader'' [] [''MODEL''] None Plain"

definition byF :: node where
  "byF = Node ''f'' BYPASSED None False [] [] [''value''] None Plain"

definition byB :: node where
  "byB = Node ''b'' ALWAYS None True ''KSampler''
     [\<lparr>name = ''model'', link = Some 1, config = None, slot_serialize = True\<rparr>,
      \<lparr>name = ''steps'', link = Some 2, config = None, slot_serialize = True\<rparr>]
     [''LATENT''] None Plain"

definition byRoot :: graph where
  "byRoot = Graph [byA, byF, byB]
     [\<lparr>link_id = 1, origin_id = ''a'', origin_slot = 0, target_id = ''b'', target_slot = 0,
       data = JUndefined\<rparr>,
      \<lparr>link_id = 2, origin_id = ''f'', origin_slot = 0, target_id = ''b'', target_slot = 1,
       data = JNum 20\<rparr>]"

definition byOrder :: "lnode list" where
  "byOrder = [(byA, []), (byF, []), (byB, [])]"

text \<open>
  A link cycle among frontend-only nodes: \<open>f1\<close> feeds the backend node \<open>b\<close>, \<open>f2\<close>
  feeds \<open>f1\<close> and \<open>f1\<close> feeds \<open>f2\<close>. \<open>cycState\<close> is the loop state when the traversal
  is back at \<open>f1\<close>.
\<close>

definition cycF1 :: node where
  "cycF1 = Node ''f1'' ALWAYS None False []
     [\<lparr>name = ''in'', link = Some 2, config = None, slot_serialize = True\<rparr>] [''out''] None Plain"

definition cycF2 :: node where
  "cycF2 = Node ''f2'' ALWAYS None False []
     [\<lparr>name = ''in'', link = Some 3, config = None, slot_serialize = True\<rparr>] [''out''] None Plain"

definition cycB :: node where
  "cycB = Node ''b'' ALWAYS None True ''KSampler''
     [\<lparr>name = ''seed'', link = Some 1, config = None, slot_serialize = True\<rparr>]
     [''LATENT''] None Plain"

definition cycLink :: "nat \<Rightarrow> string \<Rightarrow> string \<Rightarrow> link" where
  "cycLink k a b =
     \<lparr>link_id = k, origin_id = a, origin_slot = 0, target_id = b, target_slot = 0,
      data = JUndefined\<rparr>"

definition cycRoot :: graph where
  "cycRoot = Graph [cycF1, cycF2, cycB]
     [cycLink 1 ''f1'' ''b'', cycLink 2 ''f2'' ''f1'', cycLink 3 ''f1'' ''f2'']"

definition cycState :: loop_state where
  "cycState =
     \<lparr>parent = Some (cycF1, []), currentLink = Some (cycLink 3 ''f1'' ''f2''),
      currentInputSlot = Some 0, currentNode = Some (cycF2, []), seen = {2, 3}\<rparr>"

text \<open>
  A chain \<open>a \<rightarrow> r1 \<rightarrow> r2 \<rightarrow> b\<close> of two backend nodes tagged \<open>t\<close> joined through two
  reroutes that carry the tags \<open>t1\<close> and \<open>t2\<close>. The second reroute is a \<open>ComfyReroute\<close>
  whose \<open>getUpstreamLink\<close> returns its input link.
\<close>

definition rrLink :: "nat \<Rightarrow> string \<Rightarrow> string \<Rightarrow> link" where
  "rrLink k a b =
     \<lparr>link_id = k, origin_id = a, origin_slot = 0, target_id = b, target_slot = 0,
      data = JUndefined\<rparr>"

definition rrA :: node where
  "rrA = Node ''a'' ALWAYS (Some [''t'']) True ''CheckpointLoader'' [] [''MODEL''] None Plain"

definition rrR1 :: "string list option \<Rightarrow> node" where
  "rrR1 t1 = Node ''r1'' ALWAYS t1 False []
     [\<lparr>name = ''in'', link = Some 1, config = None, slot_serialize = True\<rparr>] [''out''] None
     Reroute"

definition rrR2 :: "string list option \<Rightarrow> node" where
  "rrR2 t2 = Node ''r2'' ALWAYS t2 False []
     [\<lparr>name = ''in'', link = Some 2, config = None, slot_serialize = True\<rparr>] [''out'']
     (Some (Some (rrLink 2 ''r1'' ''r2''))) ComfyReroute"

definition rrB :: node where
  "rrB = Node ''b'' ALWAYS (Some [''t'']) True ''KSampler''
     [\<lparr>name = ''model'', link = Some 3, config = None, slot_serialize = True\<rparr>]
     [''LATENT''] None Plain"

definition rrRoot :: "string list option \<Rightarrow> string list option \<Rightarrow> graph" where
  "rrRoot t1 t2 = Graph [rrA, rrR1 t1, rrR2 t2, rrB]
     [rrLink 1 ''a'' ''r1'', rrLink 2 ''r1'' ''r2'', rrLink 3 ''r2'' ''b'']"

definition rrOrder :: "string list option \<Rightarrow> string list option \<Rightarrow> lnode list" where
  "rrOrder t1 t2 = [(rrA, []), (rrR1 t1, []), (rrR2 t2, []), (rrB, [])]"


section \<open>Properties of the event client\<close>

text \<open>
  Every binary frame of event type 1 is emitted as exactly one \<open>b_preview\<close> blob holding
  the bytes after the first 8, and its type is always \<open>image/jpeg\<close>: the image format
  is read where the event type is.
\<close>

lemma preview_frame_is_jpeg:
  "getUint32 frame 0 = Inr 1 \<Longrightarrow>
   onBinaryMessage frame = [B_preview ''image/jpeg'' (drop 8 frame)]"
  by (simp add: onBinaryMessage_def decodeBinary_def)

text \<open>
  C2. A binary frame with event type 1 and image format 2 should be emitted as one
  \<open>b_preview\<close> blob of type \<open>image/png\<close> holding the bytes after the first 8. The
  handler reads the image format at offset 0 of the whole frame, where the event type is, so
  the frame below (type 1, format 2, four payload bytes) is emitted as \<open>image/jpeg\<close>.
\<close>

theorem png_frame_decoded_as_jpeg:
  "onBinaryMessage [0, 0, 0, 1, 0, 0, 0, 2, 137, 80, 78, 71]
     = [B_preview ''image/jpeg'' [137, 80, 78, 71]]"
  by (simp add: onBinaryMessage_def decodeBinary_def getUint32_def)

text \<open>
  C3, as stated, fails: \<open>getSystemStats\<close> has no \<open>catch\<close>, so a network failure
  rejects its promise with the raw error.
\<close>

theorem getSystemStats_failure_propagates:
  "getSystemStats (NetworkFailure (JsError ''TypeError'')) = Rejected (JsError ''TypeError'')"
  by (simp add: getSystemStats_def thenP_def fetch_def)

text \<open>
  C3, amended. On a network or parse failure \<open>getQueue\<close> and \<open>getHistory\<close> resolve
  with an empty result carrying the error; \<open>getSystemStats\<close>, \<open>getNodeDefs\<close>,
  \<open>getExtensions\<close> and \<open>getEmbeddings\<close> reject with the raw error; \<open>queuePrompt\<close>
  resolves with the raw error, and on a status other than 200 with a parsed body it resolves
  with that body, the backend's structured error payload.
\<close>

theorem rest_helpers_on_failure:
  "(failureOf fr = Some e \<longrightarrow>
      getQueue fr = Resolved \<lparr>running = JArr [], pending = JArr [], qerror = Some e\<rparr>
    \<and> getHistory fr = Resolved \<lparr>history = JObj [], herror = Some e\<rparr>
    \<and> getSystemStats fr = Rejected e
    \<and> getNodeDefs fr = Rejected e
    \<and> getExtensions fr = Rejected e
    \<and> getEmbeddings fr = Rejected e
    \<and> snd (queuePrompt cid b fr) = Resolved (PromptError e))
   \<and> (status r \<noteq> 200 \<and> content r = Parsed payload \<longrightarrow>
      snd (queuePrompt cid b (Responded r)) = Resolved (PromptError (Thrown payload)))"
  by (auto simp: failureOf_def getQueue_def getHistory_def getSystemStats_def getNodeDefs_def
      getExtensions_def getEmbeddings_def queuePrompt_def thenP_def catchP_def fetch_def json_def
      split: fetch_result.splits json_result.splits)

theorem rest_helpers_on_failure_witness:
  "failureOf (NetworkFailure (JsError ''TypeError'')) = Some (JsError ''TypeError'')
   \<and> getQueue (NetworkFailure (JsError ''TypeError''))
       = Resolved \<lparr>running = JArr [], pending = JArr [], qerror = Some (JsError ''TypeError'')\<rparr>
   \<and> getNodeDefs (NetworkFailure (JsError ''TypeError'')) = Rejected (JsError ''TypeError'')
   \<and> status \<lparr>status = 400, content = Parsed (JObj [(''error'', JStr ''bad prompt'')])\<rparr> \<noteq> 200
   \<and> snd (queuePrompt None
          \<lparr>client_id = None, prompt = JObj [], extra_data = JObj [], front = None, number = None\<rparr>
          (Responded \<lparr>status = 400, content = Parsed (JObj [(''error'', JStr ''bad prompt'')])\<rparr>))
       = Resolved (PromptError (Thrown (JObj [(''error'', JStr ''bad prompt'')])))"
  using rest_helpers_on_failure [of "NetworkFailure (JsError ''TypeError'')" "JsError ''TypeError''"
      None "\<lparr>client_id = None, prompt = JObj [], extra_data = JObj [], front = None, number = None\<rparr>"
      "\<lparr>status = 400, content = Parsed (JObj [(''error'', JStr ''bad prompt'')])\<rparr>"
      "JObj [(''error'', JStr ''bad prompt'')]"]
  by (simp add: failureOf_def)

text \<open>
  C7. When a socket that had opened closes, the client emits \<open>status(null)\<close> and then
  \<open>reconnecting\<close>, and schedules exactly one timeout of 300 ms while the socket reference
  is still the old one. The timeout's callback clears the reference and creates a fresh
  socket marked as a reconnect attempt, whose opening emits \<open>reconnected\<close>: the events
  come in the order \<open>status(null)\<close>, \<open>reconnecting\<close>, \<open>reconnected\<close>.
\<close>

theorem close_after_open_reconnects:
  assumes "s < length (sockets st)" and "opened (sockets st ! s)"
  shows "emitted (onClose s st) = emitted st @ [Status JNull, Reconnecting]
       \<and> timers (onClose s st) = timers st @ [300]
       \<and> socket (onClose s st) = socket st
       \<and> socket (reconnectCallback (onClose s st)) = Some (length (sockets st))
       \<and> length (sockets (reconnectCallback (onClose s st))) = Suc (length (sockets st))
       \<and> isReconnect (sockets (reconnectCallback (onClose s st)) ! length (sockets st))
       \<and> emitted (onOpen (length (sockets st)) (reconnectCallback (onClose s st)))
           = emitted st @ [Status JNull, Reconnecting, Reconnected]"
  using assms
  by (simp add: onClose_def onOpen_def reconnectCallback_def createSocket_def emit_def Let_def
      nth_append)

theorem close_after_open_reconnects_witness:
  "0 < length (sockets (onOpen 0 (init initial_state)))
   \<and> opened (sockets (onOpen 0 (init initial_state)) ! 0)
   \<and> emitted (onOpen 1 (fireTimer (onClose 0 (onOpen 0 (init initial_state)))))
       = [Status JNull, Reconnecting, Reconnected]"
  using close_after_open_reconnects [of 0 "onOpen 0 (init initial_state)"]
  by (simp add: onClose_def onOpen_def reconnectCallback_def createSocket_def emit_def Let_def
      init_def initial_state_def fireTimer_def)

text \<open>
  C8. The body \<open>queuePrompt\<close> posts has \<open>front = true\<close> when \<open>number\<close> is \<open>-1\<close>;
  for any other \<open>number\<close>, and when \<open>number\<close> is omitted, \<open>queuePrompt\<close> does not
  touch \<open>front\<close>, which stays as the caller left it (unset when the caller did not set it).
\<close>

theorem queuePrompt_front:
  "front (fst (queuePrompt cid b fr)) = (if number b = Some (- 1) then Some True else front b)
   \<and> number (fst (queuePrompt cid b fr)) = number b
   \<and> front (fst (queuePrompt cid (b\<lparr>number := None\<rparr>) fr)) = front b"
  by (simp add: queuePrompt_def outgoingBody_def Let_def)

section \<open>Properties of the graph compiler\<close>

subsection \<open>Evaluation on concrete graphs\<close>

lemma locateLoop_stop:
  "\<not> shouldFollowParent tag tgt st \<Longrightarrow> locateLoop root tag tgt st = Inr st"
  by simp

lemma locateLoop_step:
  "shouldFollowParent tag tgt st \<Longrightarrow>
   locateLoop root tag tgt st =
     (case loopBody root tag st of
        Throw e \<Rightarrow> Inl e
      | Break st' \<Rightarrow> Inr st'
      | Continue st' \<Rightarrow> locateLoop root tag tgt st')"
  by simp

lemmas eval_defs = serialize_def serializeAll_def serializeNode_def serializeInputValues_def
  serializeInputValue_def serializeBackendLinks_def serializeBackendLink_def locateUpstream_def
  loopInit_def locateResult_def loopBody_def shouldFollowParent_def getUpstreamLink_def
  followSubgraph_def followGraphInput_def getInnerGraphOutputByIndex_def isActiveBackendNode_def
  isActiveNode_def isReroute_def isGraphInputOutput_def getInputNode_def getInputLink_def
  getNodeById_def graphAt_def backendTest_def prune_def pruneInputs_def isPruned_def
  slotIndex_def inherited_def objectPrototypeNames_def

lemmas link_defs = linkA_def linkB_def linkRoot_def linkOrder_def
lemmas tag_defs = tagN_def tagS_def tagM_def tagU_def tagRoot_def tagOrder_def
lemmas nest_defs = nestN_def nestInner_def nestOuter_def nestRoot_def nestOrder_def
lemmas by_defs = byA_def byF_def byB_def byRoot_def byOrder_def
lemmas cyc_defs = cycF1_def cycF2_def cycB_def cycLink_def cycRoot_def cycState_def

subsection \<open>The pruning pass\<close>

lemma prune_Some:
  "prune out k = Some e \<longleftrightarrow>
     (\<exists>e0. out k = Some e0 \<and> e = e0\<lparr>p_inputs := pruneInputs out (p_inputs e0)\<rparr>)"
  by (auto simp: prune_def split: option.splits)

lemma prune_None: "prune out k = None \<longleftrightarrow> out k = None"
  by (simp add: prune_def split: option.splits)

lemma pruneInputs_Some:
  "pruneInputs out ins nm = Some v \<longleftrightarrow> ins nm = Some v \<and> \<not> isPruned out v"
  by (auto simp: pruneInputs_def split: option.splits)

lemma isPruned_pair:
  "isPruned out (JArr [a, b]) \<longleftrightarrow> out (jsString a) = None \<and> \<not> inherited (jsString a)"
  by (simp add: isPruned_def)

lemma serialize_Inr:
  "serialize root snapshot order tag = Inr p \<longleftrightarrow>
     (\<exists>out. serializeAll root order tag = Inr out
        \<and> p = \<lparr>workflow = snapshot, prompt_output = prune out\<rparr>)"
  by (auto simp: serialize_def split: sum.splits)

lemma link_example_all:
  "serializeAll linkRoot linkOrder None =
     Inr [''a'' \<mapsto> \<lparr>p_inputs = Map.empty, class_type = ''CheckpointLoader''\<rparr>,
          ''b'' \<mapsto> \<lparr>p_inputs = [''model'' \<mapsto> JArr [JStr ''a'', JNum 0]],
                     class_type = ''KSampler''\<rparr>]"
  by (simp add: eval_defs link_defs locateLoop_step locateLoop_stop del: locateLoop.simps)


text \<open>
  What the pruning pass does achieve: in the prompt returned, the first element of every
  two-element array is, as a property key, a key of the output mapping or the name of an
  inherited member.
\<close>

lemma pairs_left_by_prune:
  assumes "serialize root snapshot order tag = Inr p"
    and "prompt_output p nodeId = Some e"
    and "p_inputs e inputName = Some (JArr [a, b])"
  shows "prompt_output p (jsString a) \<noteq> None \<or> inherited (jsString a)"
proof -
  from assms(1) obtain out where p: "p = \<lparr>workflow = snapshot, prompt_output = prune out\<rparr>"
    by (auto simp: serialize_Inr)
  with assms(2) obtain e0 where "e = e0\<lparr>p_inputs := pruneInputs out (p_inputs e0)\<rparr>"
    by (auto simp: prune_Some)
  with assms(3) have "\<not> isPruned out (JArr [a, b])"
    by (simp add: pruneInputs_Some)
  then show ?thesis using p by (auto simp: isPruned_pair prune_None)
qed





subsection \<open>Which nodes get an entry\<close>

lemma fold_serializeNode_Inl: "fold (serializeNode root tag) order (Inl e) = Inl e"
  by (induction order) (simp_all add: serializeNode_def)

lemma serializeNode_dom:
  assumes "serializeNode root tag m (Inr acc) = Inr acc'"
  shows "dom acc' = dom acc \<union> (if isActiveBackendNode m tag then {nid (fst m)} else {})"
  using assms
  by (auto simp: serializeNode_def Let_def split: if_splits sum.splits)

lemma fold_serializeNode_dom:
  "fold (serializeNode root tag) order (Inr acc) = Inr out \<Longrightarrow>
   dom out = dom acc \<union> (\<lambda>m. nid (fst m)) ` {m \<in> set order. isActiveBackendNode m tag}"
proof (induction order arbitrary: acc)
  case Nil
  then show ?case by simp
next
  case (Cons m order)
  show ?case
  proof (cases "serializeNode root tag m (Inr acc)")
    case (Inl e)
    with Cons.prems show ?thesis by (simp add: fold_serializeNode_Inl)
  next
    case (Inr acc')
    with Cons.prems have "fold (serializeNode root tag) order (Inr acc') = Inr out" by simp
    from Cons.IH [OF this] have
      "dom out = dom acc' \<union> (\<lambda>m. nid (fst m)) ` {m \<in> set order. isActiveBackendNode m tag}" .
    moreover have "{x \<in> set (m # order). isActiveBackendNode x tag}
        = (if isActiveBackendNode m tag then {m} else {})
          \<union> {x \<in> set order. isActiveBackendNode x tag}"
      by auto
    ultimately show ?thesis using serializeNode_dom [OF Inr]
      by (simp only: image_Un) (auto split: if_splits)
  qed
qed

lemma serializeAll_dom:
  "serializeAll root order tag = Inr out \<Longrightarrow>
   dom out = (\<lambda>m. nid (fst m)) ` {m \<in> set order. isActiveBackendNode m tag}"
  using fold_serializeNode_dom [of root tag order Map.empty out]
  by (simp add: serializeAll_def)

lemma dom_prune: "dom (prune out) = dom out"
  by (auto simp: prune_def split: option.splits)

lemma serialize_dom:
  assumes "serialize root snapshot order tag = Inr p"
  shows "dom (prompt_output p)
       = (\<lambda>m. nid (fst m)) ` {m \<in> set order. isActiveBackendNode m tag}"
proof -
  from assms obtain out where "serializeAll root order tag = Inr out"
    and "p = \<lparr>workflow = snapshot, prompt_output = prune out\<rparr>"
    by (auto simp: serialize_Inr)
  then show ?thesis using serializeAll_dom [of root order tag out] by (simp add: dom_prune)
qed

lemma nodeHasTag_parents:
  "nodeHasTag n ps t True \<longleftrightarrow>
     nodeHasTag n [] t False \<or> (\<exists>a\<in>set ps. nodeHasTag a [] t False)"
  by (induction ps arbitrary: n) auto

lemma tag_example_returns: "\<exists>p. serialize tagRoot JNull tagOrder (Some ''t'') = Inr p"
  by (simp add: eval_defs tag_defs)

lemma by_example_returns: "\<exists>p. serialize byRoot JNull byOrder None = Inr p"
  by (simp add: eval_defs by_defs locateLoop_step locateLoop_stop del: locateLoop.simps)

text \<open>
  C5, as stated, fails in its first half: a tagged ancestor subgraph is not enough.
  Below, the backend node \<open>n\<close> is always-active and lies in subgraph \<open>s1\<close>, which carries
  the tag \<open>t\<close>, but \<open>s1\<close> lies in the untagged subgraph \<open>s2\<close>; filtering by \<open>t\<close>
  excludes \<open>n\<close>: \<open>serialize\<close> returns a prompt with no entry for it.
\<close>

theorem tagged_ancestor_not_sufficient:
  "isBackendNode nestN \<and> mode nestN = ALWAYS \<and> mode nestInner = ALWAYS
   \<and> mode nestOuter = ALWAYS
   \<and> nodeHasTag nestInner [] ''t'' False
   \<and> \<not> isActiveBackendNode (nestN, [nestInner, nestOuter]) (Some ''t'')
   \<and> \<not> isl (serialize nestRoot JNull nestOrder (Some ''t''))
   \<and> prompt_output (projr (serialize nestRoot JNull nestOrder (Some ''t''))) ''n'' = None"
  by (simp add: eval_defs nest_defs)

text \<open>
  C5, amended. Under a tag filter \<open>t\<close>, a backend node that does not itself carry \<open>t\<close>
  is included whenever some ancestor subgraph node carries it, provided the node is
  always-active and every ancestor subgraph node is active (always-active and tagged,
  itself or through one of its own ancestors). Conversely a backend node that carries \<open>t\<close>
  and is always-active, so that it passes the tag and mode checks itself, is excluded
  whenever some ancestor subgraph node is inactive. Included and excluded are meant both
  for \<open>isActiveBackendNode\<close> and for the keys of the prompt \<open>serialize\<close> returns (for
  exclusion, when no other node in the execution order has the same id).
\<close>

theorem tag_inheritance_through_subgraphs:
  assumes "t \<noteq> []"
  shows "(isBackendNode n \<and> mode n = ALWAYS \<and> \<not> nodeHasTag n [] t False
          \<and> (\<exists>a\<in>set ps. nodeHasTag a [] t False)
          \<and> (\<forall>a\<in>set (iterateParentSubgraphNodes ps). isActiveNode (Some a) (Some t))
          \<longrightarrow> isActiveBackendNode (n, ps) (Some t)
              \<and> ((n, ps) \<in> set order \<and> serialize root snapshot order (Some t) = Inr p
                  \<longrightarrow> nid n \<in> dom (prompt_output p)))
       \<and> (isBackendNode m \<and> mode m = ALWAYS \<and> nodeHasTag m [] t False
          \<and> (\<exists>a\<in>set (iterateParentSubgraphNodes qs). \<not> isActiveNode (Some a) (Some t))
          \<longrightarrow> isActiveNode (Some (m, qs)) (Some t)
              \<and> \<not> isActiveBackendNode (m, qs) (Some t)
              \<and> ((\<forall>x\<in>set order'. nid (fst x) = nid m \<longrightarrow> x = (m, qs))
                  \<and> serialize root' snapshot' order' (Some t) = Inr p'
                  \<longrightarrow> nid m \<notin> dom (prompt_output p')))"
proof (intro conjI impI)
  assume h: "isBackendNode n \<and> mode n = ALWAYS \<and> \<not> nodeHasTag n [] t False
          \<and> (\<exists>a\<in>set ps. nodeHasTag a [] t False)
          \<and> (\<forall>a\<in>set (iterateParentSubgraphNodes ps). isActiveNode (Some a) (Some t))"
  then have "nodeHasTag n ps t True" by (subst nodeHasTag_parents) blast
  with h assms show act: "isActiveBackendNode (n, ps) (Some t)"
    by (auto simp: isActiveBackendNode_def isActiveNode_def list_ex_iff)
  assume "(n, ps) \<in> set order \<and> serialize root snapshot order (Some t) = Inr p"
  with act show "nid n \<in> dom (prompt_output p)"
    using serialize_dom [of root snapshot order "Some t" p] by force
next
  assume h: "isBackendNode m \<and> mode m = ALWAYS \<and> nodeHasTag m [] t False
          \<and> (\<exists>a\<in>set (iterateParentSubgraphNodes qs). \<not> isActiveNode (Some a) (Some t))"
  then have "nodeHasTag m qs t True" by (subst nodeHasTag_parents) blast
  with h show "isActiveNode (Some (m, qs)) (Some t)"
    by (auto simp: isActiveNode_def)
  from h have "qs \<noteq> []" by auto
  with h show inact: "\<not> isActiveBackendNode (m, qs) (Some t)"
    by (auto simp: isActiveBackendNode_def list_ex_iff)
  assume "(\<forall>x\<in>set order'. nid (fst x) = nid m \<longrightarrow> x = (m, qs))
          \<and> serialize root' snapshot' order' (Some t) = Inr p'"
  with inact show "nid m \<notin> dom (prompt_output p')"
    using serialize_dom [of root' snapshot' order' "Some t" p'] by force
qed

theorem tag_inheritance_through_subgraphs_witness:
  "isActiveBackendNode (tagN, [tagS]) (Some ''t'')
   \<and> \<not> isActiveBackendNode (tagM, [tagU]) (Some ''t'')
   \<and> (\<exists>p. serialize tagRoot JNull tagOrder (Some ''t'') = Inr p
          \<and> ''n'' \<in> dom (prompt_output p) \<and> ''m'' \<notin> dom (prompt_output p))"
proof -
  obtain p where p: "serialize tagRoot JNull tagOrder (Some ''t'') = Inr p"
    using tag_example_returns by blast
  have "''t'' \<noteq> []" by simp
  from tag_inheritance_through_subgraphs [OF this, of tagN "[tagS]" tagOrder tagRoot JNull p
      tagM "[tagU]" tagOrder tagRoot JNull p] p
  show ?thesis
    by (simp add: tag_defs isActiveNode_def isReroute_def isGraphInputOutput_def)
qed

subsection \<open>Modes\<close>

lemma locateResult_found_active:
  "locateResult tag tgt st = (Some p, l, s, c) \<Longrightarrow> isActiveNode (Some p) tag"
  by (auto simp: locateResult_def split: option.splits if_splits)

lemma locateUpstream_found_active:
  "locateUpstream root tgt fromNode i tag = Inr (Some p, l, s, c) \<Longrightarrow>
   isActiveNode (Some p) tag"
  by (auto simp: locateUpstream_def split: option.splits sum.splits
      dest: locateResult_found_active)

lemma inactive_mode: "mode n \<noteq> ALWAYS \<Longrightarrow> \<not> isActiveNode (Some (n, ps)) tag"
  by (simp add: isActiveNode_def)

text \<open>
  C10. A node whose mode is not always-active (bypassed as well as muted) is inactive for
  \<open>isActiveNode\<close>, whatever the tag filter. It is therefore not an active backend node
  and gets no entry in the prompt (when no other node in the execution order has its id),
  \<open>locateUpstream\<close> never returns it as the node found, and in \<open>serializeInputValues\<close>
  the slot of a consumer that is connected to it leaves the inputs as they were.
\<close>

theorem non_always_mode_is_inactive:
  assumes "mode n \<noteq> ALWAYS"
  shows "\<not> isActiveNode (Some (n, ps)) tag
       \<and> \<not> isActiveBackendNode (n, ps) tag
       \<and> ((\<forall>x\<in>set order. nid (fst x) = nid n \<longrightarrow> x = (n, ps))
            \<and> serialize root snapshot order tag = Inr p
           \<longrightarrow> nid n \<notin> dom (prompt_output p))
       \<and> locateUpstream root isTheTargetNode fromNode inputIndex tag
           \<noteq> Inr (Some (n, ps), l, s, c)
       \<and> (getInputNode root consumer i = Some (n, ps)
           \<longrightarrow> serializeInputValue root consumer i ins = ins)"
proof (intro conjI impI)
  show inact: "\<not> isActiveNode (Some (n, ps)) tag" using assms by (rule inactive_mode)
  then show nb: "\<not> isActiveBackendNode (n, ps) tag" by (simp add: isActiveBackendNode_def)
  show "locateUpstream root isTheTargetNode fromNode inputIndex tag
          \<noteq> Inr (Some (n, ps), l, s, c)"
    using inact locateUpstream_found_active by blast
  {
    assume "(\<forall>x\<in>set order. nid (fst x) = nid n \<longrightarrow> x = (n, ps))
            \<and> serialize root snapshot order tag = Inr p"
    with nb show "nid n \<notin> dom (prompt_output p)"
      using serialize_dom [of root snapshot order tag p] by force
  }
  {
    assume "getInputNode root consumer i = Some (n, ps)"
    with assms show "serializeInputValue root consumer i ins = ins"
      by (simp add: serializeInputValue_def Let_def)
  }
qed

theorem non_always_mode_is_inactive_witness:
  "mode byA \<noteq> ALWAYS
   \<and> \<not> isActiveNode (Some (byA, [])) None
   \<and> (\<exists>p. serialize byRoot JNull byOrder None = Inr p \<and> ''a'' \<notin> dom (prompt_output p))
   \<and> locateUpstream byRoot backendTest (byB, []) 0 None
       = Inr (None, getInputLink byRoot (byB, []) 0, Some 0, Some (byB, []))
   \<and> getInputNode byRoot (byB, []) 0 = Some (byA, [])
   \<and> serializeInputValue byRoot (byB, []) 0 Map.empty = Map.empty
   \<and> mode byF \<noteq> ALWAYS
   \<and> getInputNode byRoot (byB, []) 1 = Some (byF, [])
   \<and> serializeInputValue byRoot (byB, []) 1 Map.empty = Map.empty"
proof -
  have mf: "mode byF \<noteq> ALWAYS" by (simp add: byF_def)
  have gf: "getInputNode byRoot (byB, []) 1 = Some (byF, [])"
    by (simp add: eval_defs by_defs)
  from non_always_mode_is_inactive [OF mf, of "[]" None byOrder byRoot JNull _ backendTest
      "(byB, [])" 0 None None None "(byB, [])" 1 Map.empty] gf
  have f: "serializeInputValue byRoot (byB, []) 1 Map.empty = Map.empty" by simp
  obtain p where p: "serialize byRoot JNull byOrder None = Inr p"
    using by_example_returns by blast
  have m: "mode byA \<noteq> ALWAYS" by (simp add: byA_def)
  have g: "getInputNode byRoot (byB, []) 0 = Some (byA, [])"
    by (simp add: eval_defs by_defs)
  have u: "\<forall>x\<in>set byOrder. nid (fst x) = nid byA \<longrightarrow> x = (byA, [])"
    by (simp add: by_defs)
  have l: "locateUpstream byRoot backendTest (byB, []) 0 None
       = Inr (None, getInputLink byRoot (byB, []) 0, Some 0, Some (byB, []))"
    by (simp add: eval_defs by_defs locateLoop_step locateLoop_stop del: locateLoop.simps)
  from non_always_mode_is_inactive [OF m, of "[]" None byOrder byRoot JNull p backendTest
      "(byB, [])" 0 None None None "(byB, [])" 0 Map.empty] p g u l mf gf f
  show ?thesis by (auto simp: byA_def)
qed

subsection \<open>Termination of the locator\<close>

lemma locateLoopFuel_enough:
  "loopMeasure root tag tgt st < k \<Longrightarrow>
   locateLoopFuel k root tag tgt st = Some (locateLoop root tag tgt st)"
proof (induction k arbitrary: st)
  case 0
  then show ?case by simp
next
  case (Suc k)
  show ?case
  proof (cases "shouldFollowParent tag tgt st")
    case False
    then show ?thesis by simp
  next
    case True
    show ?thesis
    proof (cases "loopBody root tag st")
      case (Continue st')
      from loopBody_decreases [OF True Continue] Suc.prems
      have "loopMeasure root tag tgt st' < k" by simp
      from Suc.IH [OF this] True Continue show ?thesis by simp
    qed (use True in simp_all)
  qed
qed

lemma loopMeasure_bound:
  "loopMeasure root tag tgt st \<le> Suc (card (link_id ` reach root (parent st)))"
proof -
  have "card (link_id ` reach root (parent st) - seen st)
      \<le> card (link_id ` reach root (parent st))"
    by (intro card_mono) (auto simp: finite_reach)
  then show ?thesis by (simp add: loopMeasure_def)
qed

lemma loopBody_seen:
  assumes "parent st = Some p"
    and "getUpstreamLink root p (currentLink st) = Inr (g, Some l, s, nd)"
    and "link_id l \<in> seen st"
  shows "loopBody root tag st
       = Continue (st\<lparr>currentInputSlot := s, currentNode := nd, parent := None\<rparr>)"
  using assms by (simp add: loopBody_def)

lemma cyc_eval:
  "locateUpstream cycRoot backendTest (cycB, []) 0 None
     = Inr (None, Some (cycLink 3 ''f1'' ''f2''), Some 0, Some (cycF1, []))"
  by (simp add: eval_defs cyc_defs locateLoop_step locateLoop_stop del: locateLoop.simps)

text \<open>
  C4. On every graph, cyclic or not, \<open>locateUpstream\<close> returns after a bounded number of
  steps: its loop condition is evaluated at most two times more than there are link ids
  within reach of the start, so the loop run with that bound (or any larger one) ends
  with the result of \<open>locateUpstream\<close>. Link ids the loop follows are recorded in
  \<open>seen\<close>, and when the upstream link of the current parent has an id already in \<open>seen\<close>
  the loop ends at once with a null parent, so that the node found is null. An iteration
  that moves on to a further parent has recorded the id of the link it moved along, which
  was not in \<open>seen\<close> before.
\<close>

theorem locateUpstream_terminates:
  "locateUpstreamFuel
       (Suc (Suc (card (link_id ` reach root (getInputNode root fromNode inputIndex)))) + j)
       root isTheTargetNode fromNode inputIndex tag
     = Some (locateUpstream root isTheTargetNode fromNode inputIndex tag)
   \<and> (shouldFollowParent tag isTheTargetNode st \<and> parent st = Some p
        \<and> getUpstreamLink root p (currentLink st) = Inr (g, Some l, s, nd)
        \<and> link_id l \<in> seen st
       \<longrightarrow> (\<exists>st'. locateLoop root tag isTheTargetNode st = Inr st' \<and> parent st' = None
                 \<and> fst (locateResult tag isTheTargetNode st') = None))
   \<and> (loopBody root tag st1 = Continue st2 \<and> parent st2 \<noteq> None
       \<longrightarrow> (\<exists>l. currentLink st2 = Some l \<and> link_id l \<notin> seen st1
                \<and> seen st2 = insert (link_id l) (seen st1)))"
proof (intro conjI impI)
  assume "loopBody root tag st1 = Continue st2 \<and> parent st2 \<noteq> None"
  then show "\<exists>l. currentLink st2 = Some l \<and> link_id l \<notin> seen st1
                \<and> seen st2 = insert (link_id l) (seen st1)"
    by (auto simp: loopBody_def Let_def split: option.splits sum.splits if_splits)
next
  show "locateUpstreamFuel
       (Suc (Suc (card (link_id ` reach root (getInputNode root fromNode inputIndex)))) + j)
       root isTheTargetNode fromNode inputIndex tag
     = Some (locateUpstream root isTheTargetNode fromNode inputIndex tag)"
  proof (cases "getInputNode root fromNode inputIndex")
    case None
    then show ?thesis by (simp add: locateUpstreamFuel_def locateUpstream_def)
  next
    case (Some q)
    let ?st = "loopInit root fromNode inputIndex q"
    have "parent ?st = Some q" by (simp add: loopInit_def)
    with loopMeasure_bound [of root tag isTheTargetNode ?st]
    have "loopMeasure root tag isTheTargetNode ?st
        < Suc (Suc (card (link_id ` reach root (Some q)))) + j" by simp
    from locateLoopFuel_enough [OF this] Some show ?thesis
      by (simp add: locateUpstreamFuel_def locateUpstream_def split: sum.splits)
  qed
next
  assume h: "shouldFollowParent tag isTheTargetNode st \<and> parent st = Some p
        \<and> getUpstreamLink root p (currentLink st) = Inr (g, Some l, s, nd)
        \<and> link_id l \<in> seen st"
  let ?st' = "st\<lparr>currentInputSlot := s, currentNode := nd, parent := None\<rparr>"
  from h have body: "loopBody root tag st = Continue ?st'" by (simp add: loopBody_seen)
  have stop: "\<not> shouldFollowParent tag isTheTargetNode ?st'"
    by (simp add: shouldFollowParent_def)
  from h body stop have "locateLoop root tag isTheTargetNode st = Inr ?st'"
    by (simp add: locateLoop_step locateLoop_stop del: locateLoop.simps)
  then show "\<exists>st'. locateLoop root tag isTheTargetNode st = Inr st' \<and> parent st' = None
                 \<and> fst (locateResult tag isTheTargetNode st') = None"
    by (simp add: locateResult_def)
qed

theorem locateUpstream_terminates_witness:
  "(\<exists>k. locateUpstreamFuel k cycRoot backendTest (cycB, []) 0 None
        = Some (Inr (None, Some (cycLink 3 ''f1'' ''f2''), Some 0, Some (cycF1, []))))
   \<and> shouldFollowParent None backendTest cycState
   \<and> getUpstreamLink cycRoot (cycF1, []) (currentLink cycState)
        = Inr (Some [], Some (cycLink 2 ''f2'' ''f1''), Some 0, Some (cycF1, []))
   \<and> link_id (cycLink 2 ''f2'' ''f1'') \<in> seen cycState
   \<and> (\<exists>st'. locateLoop cycRoot None backendTest cycState = Inr st' \<and> parent st' = None
          \<and> fst (locateResult None backendTest st') = None)
   \<and> loopBody cycRoot None (loopInit cycRoot (cycB, []) 0 (cycF1, []))
       = Continue \<lparr>parent = Some (cycF2, []), currentLink = Some (cycLink 2 ''f2'' ''f1''),
           currentInputSlot = Some 0, currentNode = Some (cycF1, []), seen = {2}\<rparr>"
proof -
  let ?st2 = "\<lparr>parent = Some (cycF2, []), currentLink = Some (cycLink 2 ''f2'' ''f1''),
           currentInputSlot = Some 0, currentNode = Some (cycF1, []), seen = {2}\<rparr>"
  have e: "loopBody cycRoot None (loopInit cycRoot (cycB, []) 0 (cycF1, []))
       = Continue ?st2"
    by (simp add: eval_defs cyc_defs)
  have a: "shouldFollowParent None backendTest cycState"
    by (simp add: eval_defs cyc_defs)
  have b: "getUpstreamLink cycRoot (cycF1, []) (currentLink cycState)
        = Inr (Some [], Some (cycLink 2 ''f2'' ''f1''), Some 0, Some (cycF1, []))"
    by (simp add: eval_defs cyc_defs)
  have c: "link_id (cycLink 2 ''f2'' ''f1'') \<in> seen cycState"
    by (simp add: cyc_defs)
  have d: "parent cycState = Some (cycF1, [])" by (simp add: cyc_defs)
  from locateUpstream_terminates [of cycRoot "(cycB, [])" 0 0 backendTest None cycState
      "(cycF1, [])" "Some []" "cycLink 2 ''f2'' ''f1''" "Some 0" "Some (cycF1, [])"
      "loopInit cycRoot (cycB, []) 0 (cycF1, [])" ?st2]
    a b c d e cyc_eval
  show ?thesis by auto
qed

subsection \<open>Tags on wires\<close>

lemma untagL_sel [simp]:
  "fst (untagL x) = untagNode (fst x)" "snd (untagL x) = map untagNode (snd x)"
  by (simp_all add: untagL_def)

lemma untagNode_sel [simp]:
  "nid (untagNode n) = nid n" "mode (untagNode n) = mode n"
  "isBackendNode (untagNode n) = isBackendNode n" "comfyClass (untagNode n) = comfyClass n"
  "inputs (untagNode n) = inputs n" "outputs (untagNode n) = outputs n"
  "upstreamHook (untagNode n) = upstreamHook n" "kind (untagNode n) = untagKind (kind n)"
  by (cases n; simp)+

lemma untagNode_tags: "\<not> isWire n \<Longrightarrow> tags (untagNode n) = tags n"
  by (cases n; cases "kind n") (auto simp: isWire_def isReroute_def isGraphInputOutput_def)

lemma untagKind_eq [simp]:
  "untagKind k = Reroute \<longleftrightarrow> k = Reroute"
  "untagKind k = ComfyReroute \<longleftrightarrow> k = ComfyReroute"
  "untagKind k = GraphOutput v \<longleftrightarrow> k = GraphOutput v"
  "untagKind k = GraphInput v \<longleftrightarrow> k = GraphInput v"
  by (cases k; simp)+

lemma isWire_untag [simp]: "isWire (untagNode n) = isWire n"
  by (cases "kind n") (auto simp: isWire_def isReroute_def isGraphInputOutput_def)

lemma isReroute_untag [simp]: "isReroute (untagNode n) = isReroute n"
  by (simp add: isReroute_def)

lemma isGraphInputOutput_untag [simp]: "isGraphInputOutput (untagNode n) = isGraphInputOutput n"
  by (cases "kind n") (auto simp: isGraphInputOutput_def)

lemma untagGraph_sel [simp]:
  "nodes (untagGraph g) = map untagNode (nodes g)" "links (untagGraph g) = links g"
  by (cases g; simp)+

lemma graphAt_untag:
  "graphAt (untagGraph root) (map untagNode ps) = untagGraph (graphAt root ps)"
  by (cases ps; simp add: graphAt_def split: node_kind.splits)

lemma find_map_untag:
  "(\<And>n. P (untagNode n) = P n) \<Longrightarrow> find P (map untagNode ns) = map_option untagNode (find P ns)"
  by (induction ns) auto

lemma getNodeById_untag:
  "getNodeById (untagGraph root) (map untagNode ps) i = map_option untagL (getNodeById root ps i)"
  by (simp add: getNodeById_def graphAt_untag find_map_untag untagL_def option.map_comp o_def)

lemma getInputLink_untag:
  "getInputLink (untagGraph root) (untagL node) i = getInputLink root node i"
  by (cases node) (simp add: getInputLink_def untagL_def graphAt_untag split: option.splits)

lemma getInputNode_untag:
  "getInputNode (untagGraph root) (untagL node) i = map_option untagL (getInputNode root node i)"
  by (simp add: getInputNode_def getInputLink_untag split: option.splits)
     (simp add: untagL_def getNodeById_untag)

lemma nodeHasTag_Nil:
  "nodeHasTag n [] t c = (case tags n of None \<Rightarrow> False | Some ts \<Rightarrow> t \<in> set ts)"
  by simp

lemma nodeHasTag_Cons:
  "nodeHasTag n (p # ps) t c =
     ((case tags n of None \<Rightarrow> False | Some ts \<Rightarrow> t \<in> set ts) \<or> (c \<and> nodeHasTag p ps t c))"
  by (simp del: nodeHasTag.simps add: nodeHasTag.simps [of n "p # ps"])

lemma nodeHasTag_untag:
  "\<not> isWire n \<Longrightarrow> wireFree ps \<Longrightarrow>
   nodeHasTag (untagNode n) (map untagNode ps) t c = nodeHasTag n ps t c"
proof (induction ps arbitrary: n)
  case Nil
  then show ?case by (simp add: untagNode_tags)
next
  case (Cons p ps)
  from Cons.prems have "\<not> isWire p" "wireFree ps" by (simp_all add: wireFree_def)
  from Cons.IH [OF this] Cons.prems(1) show ?case
    by (simp del: nodeHasTag.simps add: nodeHasTag_Cons untagNode_tags)
qed

lemma isActiveNode_untag:
  assumes "wireFree (snd node)"
  shows "isActiveNode (Some (untagL node)) tag = isActiveNode (Some node) tag"
proof (cases node)
  case (Pair n ps)
  show ?thesis
  proof (cases "isWire n")
    case True
    then show ?thesis using Pair
      by (auto simp: isActiveNode_def untagL_def isWire_def)
  next
    case False
    with assms Pair
    have "\<And>t. nodeHasTag (untagNode n) (map untagNode ps) t True = nodeHasTag n ps t True"
      by (simp del: nodeHasTag.simps add: nodeHasTag_untag)
    then show ?thesis using Pair
      by (simp add: isActiveNode_def untagL_def del: nodeHasTag.simps split: option.splits)
  qed
qed

lemma iterateParents_untag:
  "iterateParentSubgraphNodes (map untagNode ps) = map untagL (iterateParentSubgraphNodes ps)"
  by (induction ps) (simp_all add: untagL_def)

lemma iterateParents_wireFree:
  "wireFree ps \<Longrightarrow> a \<in> set (iterateParentSubgraphNodes ps) \<Longrightarrow> wireFree (snd a)"
  by (induction ps) (auto simp: wireFree_def)

lemma isActiveBackendNode_untag:
  assumes "wireFree (snd node)"
  shows "isActiveBackendNode (untagL node) tag = isActiveBackendNode node tag"
proof -
  have "\<forall>a\<in>set (iterateParentSubgraphNodes (snd node)).
          isActiveNode (Some (untagL a)) tag = isActiveNode (Some a) tag"
    using assms iterateParents_wireFree isActiveNode_untag by blast
  then have "list_ex (\<lambda>n. \<not> isActiveNode (Some n) tag)
               (iterateParentSubgraphNodes (map untagNode (snd node)))
      = list_ex (\<lambda>n. \<not> isActiveNode (Some n) tag) (iterateParentSubgraphNodes (snd node))"
    by (simp add: iterateParents_untag list_ex_iff)
  moreover have "isActiveNode (Some (untagL node)) tag = isActiveNode (Some node) tag"
    using assms by (rule isActiveNode_untag)
  ultimately show ?thesis
    by (simp add: isActiveBackendNode_def)
qed

lemma getInnerGraphOutputByIndex_untag:
  "getInnerGraphOutputByIndex (untagL s) i = map_option untagL (getInnerGraphOutputByIndex s i)"
proof (cases s)
  case (Pair n ps)
  have "find (\<lambda>x. kind x = GraphOutput v) (map untagNode ns)
      = map_option untagNode (find (\<lambda>x. kind x = GraphOutput v) ns)" for v ns
    by (rule find_map_untag) simp
  then show ?thesis using Pair
    by (cases "kind n"; cases "slotIndex i")
       (simp_all add: getInnerGraphOutputByIndex_def untagL_def option.map_comp o_def)
qed

lemma followSubgraph_untag:
  "followSubgraph (untagGraph root) (untagL s) cl
     = map_sum id untagResult (followSubgraph root s cl)"
  by (simp add: followSubgraph_def getInnerGraphOutputByIndex_untag getInputLink_untag
      untagResult_def split: option.splits)

lemma followGraphInput_untag:
  "followGraphInput (untagGraph root) (untagL gi) v cl
     = map_sum id untagResult (followGraphInput root gi v cl)"
proof -
  have "getInputLink (untagGraph root) (untagNode p, map untagNode ps) i = getInputLink root (p, ps) i"
    for p ps i
    using getInputLink_untag [of root "(p, ps)" i] by (simp add: untagL_def)
  then show ?thesis
    by (auto simp: followGraphInput_def untagResult_def untagL_def split: option.splits list.splits)
qed

lemma getUpstreamLink_untag:
  "getUpstreamLink (untagGraph root) (untagL p) cl
     = map_sum id untagResult (getUpstreamLink root p cl)"
proof (cases "kind (fst p)")
  case (Subgraph g)
  then show ?thesis
    using followSubgraph_untag [of root p cl]
    by (simp add: getUpstreamLink_def untagL_def)
next
  case (GraphInput v)
  then show ?thesis
    using followGraphInput_untag [of root p v cl]
    by (simp add: getUpstreamLink_def untagL_def)
qed (use getInputLink_untag [of root p 0] in
      \<open>auto simp: getUpstreamLink_def untagL_def untagResult_def split: option.splits\<close>)

lemma getUpstreamLink_wireFree:
  assumes "wireFree (snd p)" and "getUpstreamLink root p cl = Inr (Some g, l, s, nd)"
  shows "wireFree g"
proof (cases "kind (fst p)")
  case (Subgraph sg)
  with assms(2) have "followSubgraph root (fst p, snd p) cl = Inr (Some g, l, s, nd)"
    by (simp add: getUpstreamLink_def)
  from followSubgraph_Inr [OF this] have "g = fst p # snd p" by simp
  moreover from Subgraph have "\<not> isWire (fst p)"
    by (simp add: isWire_def isReroute_def isGraphInputOutput_def)
  ultimately show ?thesis using assms(1) by (simp add: wireFree_def)
next
  case (GraphInput v)
  with assms(2) obtain q where "snd p = q # g"
    by (auto simp: getUpstreamLink_def followGraphInput_def split: option.splits if_splits list.splits)
  with assms(1) show ?thesis by (simp add: wireFree_def)
qed (use assms in \<open>auto simp: getUpstreamLink_def split: option.splits if_splits\<close>)

lemma loopBody_stateOK:
  assumes "stateOK st" and "loopBody root tag st = Continue st'"
  shows "stateOK st'"
proof (cases "parent st'")
  case None
  then show ?thesis by (simp add: stateOK_def)
next
  case (Some q)
  from assms(2) obtain n ps where p: "parent st = Some (n, ps)"
    by (cases "parent st") (auto simp: loopBody_def)
  from loopBody_Continue [OF assms(2) p] Some obtain g l slot nd where
    up: "getUpstreamLink root (n, ps) (currentLink st) = Inr (Some g, Some l, slot, nd)"
    and q: "getNodeById root g (origin_id l) = Some q" by auto
  from assms(1) p have "wireFree (snd (n, ps))" by (simp add: stateOK_def)
  from getUpstreamLink_wireFree [OF this up] have "wireFree g" .
  moreover from q have "snd q = g" by (cases q) (auto dest: getNodeById_Some)
  ultimately show ?thesis using Some by (simp add: stateOK_def)
qed

lemma loopBody_Break_parent:
  "loopBody root tag st = Break st' \<Longrightarrow> parent st' = parent st"
  by (auto simp: loopBody_def Let_def split: option.splits sum.splits if_splits)

lemma untagState_sel [simp]:
  "parent (untagState st) = map_option untagL (parent st)"
  "currentNode (untagState st) = map_option untagL (currentNode st)"
  "currentLink (untagState st) = currentLink st"
  "currentInputSlot (untagState st) = currentInputSlot st"
  "seen (untagState st) = seen st"
  by (simp_all add: untagState_def)

lemma loopBody_untag:
  assumes "stateOK st"
  shows "loopBody (untagGraph root) tag (untagState st)
       = map_iteration untagState (loopBody root tag st)"
proof (cases "parent st")
  case None
  then show ?thesis by (simp add: loopBody_def)
next
  case (Some p)
  with assms have act: "isActiveNode (Some (untagL p)) tag = isActiveNode (Some p) tag"
    by (simp add: stateOK_def isActiveNode_untag)
  show ?thesis
  proof (cases "getUpstreamLink root p (currentLink st)")
    case (Inl e)
    with Some show ?thesis by (simp add: loopBody_def getUpstreamLink_untag)
  next
    case (Inr r)
    obtain g l s nd where r: "r = (g, l, s, nd)" by (cases r)
    show ?thesis
    proof (cases l)
      case None
      with Some Inr r show ?thesis
        by (simp add: loopBody_def getUpstreamLink_untag untagResult_def untagState_def Let_def)
    next
      case (Some lk)
      note l = this
      show ?thesis
      proof (cases g)
        case None
        with \<open>parent st = Some p\<close> Inr r l show ?thesis
          by (simp add: loopBody_def getUpstreamLink_untag untagResult_def untagState_def Let_def)
      next
        case (Some gr)
        with \<open>parent st = Some p\<close> Inr r l act show ?thesis
          by (simp add: loopBody_def getUpstreamLink_untag untagResult_def untagState_def
              getNodeById_untag Let_def)
      qed
    qed
  qed
qed

lemma respectsUntagD: "respectsUntag tgt \<Longrightarrow> tgt (untagL p) l = tgt p l"
  unfolding respectsUntag_def by blast

lemma shouldFollowParent_untag:
  assumes "stateOK st" and "respectsUntag tgt"
  shows "shouldFollowParent tag tgt (untagState st) = shouldFollowParent tag tgt st"
proof (cases "parent st")
  case None
  then show ?thesis by (simp add: shouldFollowParent_def)
next
  case (Some p)
  with assms show ?thesis
    by (simp add: shouldFollowParent_def stateOK_def isActiveNode_untag respectsUntagD)
qed

lemma locateLoop_untag:
  assumes "stateOK st" and "respectsUntag tgt"
  shows "locateLoop (untagGraph root) tag tgt (untagState st)
           = map_sum id untagState (locateLoop root tag tgt st)
       \<and> (\<forall>st'. locateLoop root tag tgt st = Inr st' \<longrightarrow> stateOK st')"
  using assms
proof (induction root tag tgt st rule: locateLoop.induct)
  case (1 root tag tgt st)
  note ok = \<open>stateOK st\<close> and tg = \<open>respectsUntag tgt\<close>
  have guard: "shouldFollowParent tag tgt (untagState st) = shouldFollowParent tag tgt st"
    using ok tg by (rule shouldFollowParent_untag)
  show ?case
  proof (cases "shouldFollowParent tag tgt st")
    case False
    with guard ok show ?thesis
      by (simp add: locateLoop_stop del: locateLoop.simps)
  next
    case True
    note body = loopBody_untag [OF ok, of root tag]
    show ?thesis
    proof (cases "loopBody root tag st")
      case (Throw e)
      with True guard body show ?thesis
        by (simp add: locateLoop_step del: locateLoop.simps)
    next
      case (Break st')
      from loopBody_Break_parent [OF Break] ok have "stateOK st'" by (simp add: stateOK_def)
      with Break True guard body show ?thesis
        by (simp add: locateLoop_step del: locateLoop.simps)
    next
      case (Continue st')
      from loopBody_stateOK [OF ok Continue] have "stateOK st'" .
      from "1.IH" [OF True Continue this tg] Continue True guard body show ?thesis
        by (simp add: locateLoop_step del: locateLoop.simps)
    qed
  qed
qed

lemma locateResult_untag:
  assumes "stateOK st" and "respectsUntag tgt"
  shows "locateResult tag tgt (untagState st) = untagLocated (locateResult tag tgt st)"
proof (cases "parent st")
  case None
  then show ?thesis by (simp add: locateResult_def untagLocated_def)
next
  case (Some p)
  with assms show ?thesis
    by (simp add: locateResult_def untagLocated_def stateOK_def isActiveNode_untag
        respectsUntagD)
qed

lemma loopInit_untag:
  "loopInit (untagGraph root) (untagL node) i (untagL p)
     = untagState (loopInit root node i p)"
  by (simp add: loopInit_def untagState_def getInputLink_untag)

lemma getInputNode_chain: "getInputNode root node i = Some p \<Longrightarrow> snd p = snd node"
  by (cases p) (auto simp: getInputNode_def split: option.splits dest: getNodeById_Some)

lemma locateUpstream_untag:
  assumes "wireFree (snd node)" and "respectsUntag tgt"
  shows "locateUpstream (untagGraph root) tgt (untagL node) i tag
       = map_sum id untagLocated (locateUpstream root tgt node i tag)"
proof (cases "getInputNode root node i")
  case None
  then show ?thesis
    by (simp add: locateUpstream_def getInputNode_untag untagLocated_def)
next
  case (Some p)
  let ?st = "loopInit root node i p"
  from getInputNode_chain [OF Some] assms(1) have ok: "stateOK ?st"
    by (simp add: stateOK_def loopInit_def)
  from locateLoop_untag [OF ok assms(2), of root tag]
  have loop: "locateLoop (untagGraph root) tag tgt (untagState ?st)
           = map_sum id untagState (locateLoop root tag tgt ?st)"
    and fin: "\<And>st'. locateLoop root tag tgt ?st = Inr st' \<Longrightarrow> stateOK st'" by blast+
  show ?thesis
  proof (cases "locateLoop root tag tgt ?st")
    case (Inl e)
    with Some loop show ?thesis
      by (simp add: locateUpstream_def getInputNode_untag loopInit_untag)
  next
    case (Inr st')
    from locateResult_untag [OF fin [OF Inr] assms(2)] Inr Some loop show ?thesis
      by (simp add: locateUpstream_def getInputNode_untag loopInit_untag)
  qed
qed

lemma untagL_pair: "untagL (n, ps) = (untagNode n, map untagNode ps)"
  by (simp add: untagL_def)

lemma serializeInputValue_untag:
  "serializeInputValue (untagGraph root) (untagL node) i ins = serializeInputValue root node i ins"
proof (cases "getInputNode root node i")
  case None
  then show ?thesis
    by (simp add: serializeInputValue_def getInputNode_untag getInputLink_untag Let_def
        split: option.splits)
next
  case (Some p)
  obtain m ps where "p = (m, ps)" by (cases p)
  with Some show ?thesis
    by (simp add: serializeInputValue_def getInputNode_untag getInputLink_untag Let_def
        untagL_pair split: option.splits)
qed

lemma serializeInputValues_untag:
  "serializeInputValues (untagGraph root) (untagL node) = serializeInputValues root node"
proof -
  have "serializeInputValue (untagGraph root) (untagL node) = serializeInputValue root node"
    by (intro ext) (simp add: serializeInputValue_untag)
  then show ?thesis by (simp add: serializeInputValues_def)
qed

lemma backendTest_untag: "respectsUntag backendTest"
  by (simp add: backendTest_def respectsUntag_def)

lemma serializeBackendLink_untag:
  assumes "wireFree (snd node)"
  shows "serializeBackendLink (untagGraph root) (untagL node) tag i acc
       = serializeBackendLink root node tag i acc"
proof -
  from locateUpstream_untag [OF assms backendTest_untag, of root i tag]
  have up: "locateUpstream (untagGraph root) backendTest (untagL node) i tag
       = map_sum id untagLocated (locateUpstream root backendTest node i tag)" .
  show ?thesis
  proof (cases acc)
    case (Inl e)
    then show ?thesis by (simp add: serializeBackendLink_def)
  next
    case acc: (Inr ins)
    show ?thesis
    proof (cases "locateUpstream root backendTest node i tag")
      case (Inl e)
      with up acc show ?thesis by (simp add: serializeBackendLink_def)
    next
      case (Inr r)
      obtain found l s nd where "r = (found, l, s, nd)" by (cases r)
      with Inr up acc show ?thesis
        by (cases found) (simp_all add: serializeBackendLink_def untagLocated_def)
    qed
  qed
qed

lemma serializeBackendLinks_untag:
  assumes "wireFree (snd node)"
  shows "serializeBackendLinks (untagGraph root) (untagL node) tag
       = serializeBackendLinks root node tag"
proof -
  have "serializeBackendLink (untagGraph root) (untagL node) tag
      = serializeBackendLink root node tag"
    by (intro ext) (rule serializeBackendLink_untag [OF assms])
  then show ?thesis by (simp add: serializeBackendLinks_def)
qed

lemma serializeNode_untag:
  assumes "wireFree (snd node)"
  shows "serializeNode (untagGraph root) tag (untagL node) acc = serializeNode root tag node acc"
  using assms
  by (cases acc)
     (simp_all add: serializeNode_def isActiveBackendNode_untag serializeInputValues_untag
        serializeBackendLinks_untag split: sum.splits)

lemma serializeAll_untag:
  assumes "\<forall>node\<in>set order. wireFree (snd node)"
  shows "serializeAll (untagGraph root) (map untagL order) tag = serializeAll root order tag"
proof -
  have "fold (serializeNode (untagGraph root) tag) (map untagL order) acc
      = fold (serializeNode root tag) order acc" for acc
    using assms by (induction order arbitrary: acc) (simp_all add: serializeNode_untag)
  then show ?thesis by (simp add: serializeAll_def)
qed

lemmas rr_defs = rrLink_def rrA_def rrR1_def rrR2_def rrB_def rrRoot_def rrOrder_def

lemma wire_active:
  "isReroute n \<or> isGraphInputOutput n \<Longrightarrow> isActiveNode (Some (n, ps)) tag = (mode n = ALWAYS)"
  by (auto simp: isActiveNode_def)

lemma serialize_untag:
  assumes "\<forall>node\<in>set order. wireFree (snd node)"
  shows "serialize (untagGraph root) snapshot (map untagL order) tag
       = serialize root snapshot order tag"
  by (simp add: serialize_def serializeAll_untag [OF assms])

text \<open>
  C6. Tag filtering never deactivates a reroute or a graph input or output node: such a
  node is active exactly when its mode is always-active, whatever the tag filter and
  whatever tags it carries (so any other mode still deactivates it). As a consequence
  \<open>serialize\<close> does not depend on the tags placed on these nodes: two graphs, with their
  execution orders, that are equal once the tags on reroutes and graph inputs and outputs
  are erased serialize to the same result under every tag filter. (The chains of enclosing
  nodes recorded in the execution order hold no reroute and no graph input or output, as
  they are subgraph nodes.) In particular two backend nodes joined through reroutes get
  the same link entry whatever tags the reroutes carry.
\<close>

theorem reroute_tags_ignored:
  "(isReroute n \<or> isGraphInputOutput n
      \<longrightarrow> isActiveNode (Some (n, ps)) tag = (mode n = ALWAYS))
   \<and> (untagGraph root = untagGraph root' \<and> map untagL order = map untagL order'
       \<and> (\<forall>node\<in>set order. wireFree (snd node)) \<and> (\<forall>node\<in>set order'. wireFree (snd node))
      \<longrightarrow> serialize root snapshot order tag = serialize root' snapshot order' tag)"
proof (intro conjI impI)
  assume "isReroute n \<or> isGraphInputOutput n"
  then show "isActiveNode (Some (n, ps)) tag = (mode n = ALWAYS)" by (rule wire_active)
next
  assume h: "untagGraph root = untagGraph root' \<and> map untagL order = map untagL order'
       \<and> (\<forall>node\<in>set order. wireFree (snd node)) \<and> (\<forall>node\<in>set order'. wireFree (snd node))"
  then have w: "\<forall>node\<in>set order. wireFree (snd node)"
    and w': "\<forall>node\<in>set order'. wireFree (snd node)"
    and g: "untagGraph root = untagGraph root'"
    and o: "map untagL order = map untagL order'" by blast+
  have "serialize root snapshot order tag
      = serialize (untagGraph root) snapshot (map untagL order) tag"
    by (rule serialize_untag [OF w, symmetric])
  also have "\<dots> = serialize (untagGraph root') snapshot (map untagL order') tag"
    by (simp only: g o)
  also have "\<dots> = serialize root' snapshot order' tag"
    by (rule serialize_untag [OF w'])
  finally show "serialize root snapshot order tag = serialize root' snapshot order' tag" .
qed

lemma rr_example_all:
  "serializeAll (rrRoot None None) (rrOrder None None) (Some ''t'') =
     Inr [''a'' \<mapsto> \<lparr>p_inputs = Map.empty, class_type = ''CheckpointLoader''\<rparr>,
          ''b'' \<mapsto> \<lparr>p_inputs = [''model'' \<mapsto> JArr [JStr ''a'', JNum 0]],
                     class_type = ''KSampler''\<rparr>]"
  by (simp add: eval_defs rr_defs locateLoop_step locateLoop_stop del: locateLoop.simps)

theorem reroute_tags_ignored_witness:
  "isReroute (rrR1 (Some [''x'']))
   \<and> isActiveNode (Some (rrR1 (Some [''x'']), [])) (Some ''t'')
   \<and> serialize (rrRoot (Some [''x'']) (Some [''y'', ''z''])) JNull
         (rrOrder (Some [''x'']) (Some [''y'', ''z''])) (Some ''t'')
       = serialize (rrRoot None None) JNull (rrOrder None None) (Some ''t'')
   \<and> (\<exists>p e. serialize (rrRoot (Some [''x'']) (Some [''y'', ''z''])) JNull
                (rrOrder (Some [''x'']) (Some [''y'', ''z''])) (Some ''t'') = Inr p
          \<and> prompt_output p ''b'' = Some e
          \<and> p_inputs e ''model'' = Some (JArr [JStr ''a'', JNum 0]))"
proof -
  let ?root = "rrRoot (Some [''x'']) (Some [''y'', ''z''])"
  let ?order = "rrOrder (Some [''x'']) (Some [''y'', ''z''])"
  have r: "isReroute (rrR1 (Some [''x'']))" by (simp add: rr_defs isReroute_def)
  have g: "untagGraph ?root = untagGraph (rrRoot None None)"
    and o: "map untagL ?order = map untagL (rrOrder None None)"
    and w: "\<forall>node\<in>set ?order. wireFree (snd node)"
      "\<forall>node\<in>set (rrOrder None None). wireFree (snd node)"
    by (simp_all add: rr_defs untagL_def wireFree_def)
  from reroute_tags_ignored [of "rrR1 (Some [''x''])" "[]" "Some ''t''" ?root "rrRoot None None"
      ?order "rrOrder None None" JNull] r g o w
  have a: "isActiveNode (Some (rrR1 (Some [''x'']), [])) (Some ''t'')"
    and s: "serialize ?root JNull ?order (Some ''t'')
          = serialize (rrRoot None None) JNull (rrOrder None None) (Some ''t'')"
    by (simp_all add: rr_defs)
  have "\<exists>p e. serialize (rrRoot None None) JNull (rrOrder None None) (Some ''t'') = Inr p
          \<and> prompt_output p ''b'' = Some e
          \<and> p_inputs e ''model'' = Some (JArr [JStr ''a'', JNum 0])"
    by (simp add: serialize_def rr_example_all prune_def pruneInputs_def isPruned_def)
  with r a s show ?thesis by simp
qed


end
